theory Spec2Isabelle
  imports Main "HOL-Library.Word"
begin

unbundle bit_operations_syntax

section \<open>Data model of dlo\_mode.c\<close>

text \<open>
  Fixed-width C integers are words: \<open>uint8_t\<close> is \<open>8 word\<close>, \<open>uint16_t\<close> is
  \<open>16 word\<close>, \<open>uint32_t\<close> (and with it \<open>dlo_modenum_t\<close>, a typedef of
  \<open>uint32_t\<close> in dlo\_structs.h) is \<open>32 word\<close>. Loop counters that provably stay
  small (\<open>idx\<close>, \<open>bit\<close>, \<open>hz\<close>, \<open>i\<close>) are natural numbers.

  An access outside an array is undefined behaviour in C. Every function that indexes
  an array with a value it did not check returns an \<open>option\<close>: \<open>None\<close> is
  "undefined behaviour", \<open>Some r\<close> is a defined run with result \<open>r\<close>.
\<close>

text \<open>
  The return codes. \<open>dlo_retcode_t\<close> is declared in libdlo.h, which is not among the
  sources; the constructors are the codes dlo\_mode.c names, \<open>dlo_err_other\<close> stands
  for the remaining codes (the ones the USB layer reports), and \<open>retcode_of_modenum n\<close>
  is a mode number returned where a return code is expected, as \<open>mode_select\<close> does
  with \<open>DLO_INVALID_MODE\<close>.
\<close>

datatype dlo_retcode_t =
    dlo_ok
  | dlo_warn_dl160_mode
  | dlo_err_bad_mode
  | dlo_err_buf_full
  | dlo_err_edid_fail
  | dlo_err_other nat
  | retcode_of_modenum "32 word"

text \<open>
  \<open>dlo_view_t\<close> and \<open>dlo_mode_t\<close> (libdlo.h). The field widths are the ones
  dlo\_mode.c uses them at: width and height are passed as \<open>uint16_t\<close>, bpp and
  refresh as \<open>uint8_t\<close>, and the base address \<open>dlo_ptr_t\<close> is a 32-bit device
  address.
\<close>

record dlo_view_t =
  width :: "16 word"
  height :: "16 word"
  bpp :: "8 word"
  base :: "32 word"

record dlo_mode_t =
  view :: dlo_view_t
  refresh :: "8 word"

text \<open>
  The mode-program, mode-enable and postamble blocks of dlo\_data.h are opaque byte
  strings selected by the mode's parameters; they are kept symbolic. The \<open>data_sz\<close>
  and \<open>mode_en_sz\<close> fields of \<open>dlo_mode_data_t\<close> are the sizes of these blocks and
  carry no information of their own.
\<close>

datatype dlo_blob =
    DLO_MODE_DATA "16 word" "16 word" "8 word" "8 word"
  | DLO_MODE_ENABLE "16 word" "16 word" "8 word" "8 word"
  | DLO_MODE_POSTAMBLE

record dlo_mode_data_t =
  md_width :: "16 word"
  md_height :: "16 word"
  md_refresh :: "8 word"
  md_bpp :: "8 word"
  md_data :: dlo_blob
  md_mode_en :: dlo_blob
  md_low_blank :: bool

record est_timing_t =
  et_width :: "16 word"
  et_height :: "16 word"
  et_refresh :: "8 word"

text \<open>One transfer handed to the USB layer.\<close>

datatype usb_xfer =
    Bulk_write "8 word list"
  | Bulk_blob dlo_blob
  | Chan_sel dlo_blob

text \<open>
  The device. \<open>buffer\<close> is the storage of the command buffer, from the C pointer
  \<open>buffer\<close> up to \<open>bufend\<close> (so \<open>bufend - buffer\<close> is its length), and
  \<open>bufptr\<close> is the offset of the C pointer \<open>bufptr\<close> from \<open>buffer\<close>.
  \<open>supported\<close> is the array \<open>supported[DLO_MODE_DATA_NUM]\<close>. \<open>wire\<close> is not a C
  field: it records what was handed to the USB layer, in order. The list linkage,
  serial, type, claim and timeout fields play no part in dlo\_mode.c.
\<close>

record dlo_device_t =
  buffer :: "8 word list"
  bufptr :: nat
  mode :: dlo_mode_t
  base8 :: "32 word"
  low_blank :: bool
  native :: dlo_mode_t
  supported :: "32 word list"
  wire :: "usb_xfer list"

section \<open>Constants of the absent headers\<close>

definition DLO_MODE_DATA_NUM :: nat where
  \<comment> \<open>Modelled from the spec: the macro is defined in dlo\_data.h, which is not among
      the sources. The spec gives the catalogue 35 entries, and \<open>dlo_mode_init\<close>
      initialises the indices 0 to 34.\<close>
  "DLO_MODE_DATA_NUM = 35"

definition DLO_INVALID_MODE :: "32 word" where
  \<comment> \<open>Modelled from the spec: the macro is defined in libdlo.h, which is not among
      the sources. The spec asks for a reserved value distinct from every valid index;
      the value is \<open>(dlo_modenum_t)-1\<close>.\<close>
  "DLO_INVALID_MODE = - 1"

definition BYTES_PER_16BPP :: "32 word" where
  \<comment> \<open>Modelled from the spec: the macro is defined in dlo\_defs.h, which is not among
      the sources. The spec states \<open>base8 = base + 2 * width * height\<close>.\<close>
  "BYTES_PER_16BPP = 2"

section \<open>The mode catalogue\<close>

definition init_mode ::
  "nat \<Rightarrow> 16 word \<Rightarrow> 16 word \<Rightarrow> 8 word \<Rightarrow> 8 word \<Rightarrow>
     dlo_mode_data_t list \<Rightarrow> dlo_mode_data_t list" where
  "init_mode idx mwidth mheight mrefresh mbpp tab =
     tab[idx := \<lparr> md_width = mwidth, md_height = mheight,
                  md_refresh = mrefresh, md_bpp = mbpp,
                  md_data = DLO_MODE_DATA mwidth mheight mrefresh mbpp,
                  md_mode_en = DLO_MODE_ENABLE mwidth mheight mrefresh mbpp,
                  md_low_blank = False \<rparr>]"

definition dlo_mode_init :: "dlo_mode_data_t list \<Rightarrow> dlo_retcode_t \<times> dlo_mode_data_t list" where
  "dlo_mode_init tab =
     (dlo_ok,
      (init_mode 34 640 480 60 24 \<circ>
       init_mode 33 640 480 73 24 \<circ>
       init_mode 32 640 480 75 24 \<circ>
       init_mode 31 640 480 85 24 \<circ>
       init_mode 30 720 400 70 24 \<circ>
       init_mode 29 720 400 85 24 \<circ>
       init_mode 28 800 480 60 24 \<circ>
       init_mode 27 800 600 56 24 \<circ>
       init_mode 26 800 600 60 24 \<circ>
       init_mode 25 800 600 72 24 \<circ>
       init_mode 24 800 600 75 24 \<circ>
       init_mode 23 800 600 85 24 \<circ>
       init_mode 22 848 480 60 24 \<circ>
       init_mode 21 1024 768 60 24 \<circ>
       init_mode 20 1024 768 70 24 \<circ>
       init_mode 19 1024 768 75 24 \<circ>
       init_mode 18 1024 768 85 24 \<circ>
       init_mode 17 1152 864 75 24 \<circ>
       init_mode 16 1280 768 60 24 \<circ>
       init_mode 15 1280 1024 60 24 \<circ>
       init_mode 14 1280 1024 75 24 \<circ>
       init_mode 13 1280 1024 85 24 \<circ>
       init_mode 12 1280 768 75 24 \<circ>
       init_mode 11 1280 768 85 24 \<circ>
       init_mode 10 1280 800 60 24 \<circ>
       init_mode 9 1280 960 60 24 \<circ>
       init_mode 8 1280 960 85 24 \<circ>
       init_mode 7 1360 768 60 24 \<circ>
       init_mode 6 1366 768 60 24 \<circ>
       init_mode 5 1400 1050 60 24 \<circ>
       init_mode 4 1400 1050 60 24 \<circ>
       init_mode 3 1400 1050 75 24 \<circ>
       init_mode 2 1400 1050 85 24 \<circ>
       init_mode 1 1600 1200 60 24 \<circ>
       init_mode 0 1920 1080 60 24) tab)"

definition zero_mode_data :: dlo_mode_data_t where
  \<comment> \<open>An entry of the static array before initialisation: all bytes zero.\<close>
  "zero_mode_data = \<lparr> md_width = 0, md_height = 0, md_refresh = 0, md_bpp = 0,
                       md_data = DLO_MODE_DATA 0 0 0 0, md_mode_en = DLO_MODE_ENABLE 0 0 0 0,
                       md_low_blank = False \<rparr>"

definition dlo_mode_data :: "dlo_mode_data_t list" where
  \<comment> \<open>The static array \<open>dlo_mode_data[DLO_MODE_DATA_NUM]\<close> once \<open>dlo_mode_init\<close>
      has run; nothing writes it afterwards.\<close>
  "dlo_mode_data = snd (dlo_mode_init (replicate DLO_MODE_DATA_NUM zero_mode_data))"

definition mode_of_data :: "dlo_mode_data_t \<Rightarrow> dlo_mode_t" where
  \<comment> \<open>The five assignments that copy a catalogue entry into a \<open>dlo_mode_t\<close> with base 0
      (in \<open>dlo_mode_from_number\<close> and in \<open>lookup_edid_modes\<close>).\<close>
  "mode_of_data d =
     \<lparr> view = \<lparr> width = md_width d, height = md_height d, bpp = md_bpp d, base = 0 \<rparr>,
       refresh = md_refresh d \<rparr>"

definition dlo_mode_from_number :: "32 word \<Rightarrow> dlo_mode_t option" where
  \<comment> \<open>\<open>None\<close> is the NULL pointer; \<open>Some m\<close> is the contents of the static record the
      returned pointer designates.\<close>
  "dlo_mode_from_number num =
     (if unat num < DLO_MODE_DATA_NUM then Some (mode_of_data (dlo_mode_data ! unat num))
      else None)"


section \<open>Mode lookup\<close>

text \<open>
  The body of the \<open>for\<close> loop of \<open>get_mode_number\<close>, over the entries of
  \<open>dev->supported\<close> that are still to be read. The loop ends when the entries are
  used up (\<open>idx\<close> reached \<open>DLO_MODE_DATA_NUM\<close>) or at the first
  \<open>DLO_INVALID_MODE\<close>. The mode number read indexes \<open>dlo_mode_data\<close> unchecked:
  a number outside the catalogue is an out-of-bounds read.
\<close>

fun get_mode_number_loop ::
  "32 word list \<Rightarrow> 16 word \<Rightarrow> 16 word \<Rightarrow> 8 word \<Rightarrow> 8 word \<Rightarrow> 32 word option" where
  "get_mode_number_loop [] w h r b = Some DLO_INVALID_MODE"
| "get_mode_number_loop (num # rest) w h r b =
     (if num = DLO_INVALID_MODE then Some DLO_INVALID_MODE
      else if \<not> unat num < DLO_MODE_DATA_NUM then None
      else if md_width (dlo_mode_data ! unat num) \<noteq> w then get_mode_number_loop rest w h r b
      else if b \<noteq> 0 \<and> md_bpp (dlo_mode_data ! unat num) \<noteq> b then get_mode_number_loop rest w h r b
      else if h \<noteq> 0 \<and> md_height (dlo_mode_data ! unat num) \<noteq> h then get_mode_number_loop rest w h r b
      else if r \<noteq> 0 \<and> md_refresh (dlo_mode_data ! unat num) \<noteq> r then get_mode_number_loop rest w h r b
      else Some num)"

definition get_mode_number ::
  "dlo_device_t \<Rightarrow> 16 word \<Rightarrow> 16 word \<Rightarrow> 8 word \<Rightarrow> 8 word \<Rightarrow> 32 word option" where
  "get_mode_number dev w h r b =
     get_mode_number_loop (take DLO_MODE_DATA_NUM (supported dev)) w h r b"

definition dlo_mode_lookup ::
  "dlo_device_t \<Rightarrow> 16 word \<Rightarrow> 16 word \<Rightarrow> 8 word \<Rightarrow> 8 word \<Rightarrow> 32 word option" where
  "dlo_mode_lookup dev w h r b =
     (if b \<noteq> 24 then Some DLO_INVALID_MODE else get_mode_number dev w h r b)"

definition use_default_modes :: "dlo_device_t \<Rightarrow> dlo_device_t" where
  "use_default_modes dev =
     dev\<lparr> supported := fold (\<lambda>i s. s[i := of_nat i]) [0..<DLO_MODE_DATA_NUM] (supported dev) \<rparr>"

section \<open>The supported list built from EDID\<close>

definition est_timings :: "est_timing_t list" where
  "est_timings =
     [ \<lparr> et_width = 800, et_height = 600, et_refresh = 60 \<rparr>,
       \<lparr> et_width = 800, et_height = 600, et_refresh = 56 \<rparr>,
       \<lparr> et_width = 640, et_height = 480, et_refresh = 75 \<rparr>,
       \<lparr> et_width = 640, et_height = 480, et_refresh = 72 \<rparr>,
       \<lparr> et_width = 640, et_height = 480, et_refresh = 67 \<rparr>,
       \<lparr> et_width = 640, et_height = 480, et_refresh = 60 \<rparr>,
       \<lparr> et_width = 720, et_height = 400, et_refresh = 88 \<rparr>,
       \<lparr> et_width = 720, et_height = 400, et_refresh = 70 \<rparr>,
       \<lparr> et_width = 1280, et_height = 1024, et_refresh = 75 \<rparr>,
       \<lparr> et_width = 1024, et_height = 768, et_refresh = 75 \<rparr>,
       \<lparr> et_width = 1024, et_height = 768, et_refresh = 70 \<rparr>,
       \<lparr> et_width = 1024, et_height = 768, et_refresh = 60 \<rparr>,
       \<lparr> et_width = 1024, et_height = 768, et_refresh = 87 \<rparr>,
       \<lparr> et_width = 832, et_height = 624, et_refresh = 75 \<rparr>,
       \<lparr> et_width = 800, et_height = 600, et_refresh = 75 \<rparr>,
       \<lparr> et_width = 800, et_height = 600, et_refresh = 72 \<rparr>,
       \<lparr> et_width = 0, et_height = 0, et_refresh = 0 \<rparr>,
       \<lparr> et_width = 0, et_height = 0, et_refresh = 0 \<rparr>,
       \<lparr> et_width = 0, et_height = 0, et_refresh = 0 \<rparr>,
       \<lparr> et_width = 0, et_height = 0, et_refresh = 0 \<rparr>,
       \<lparr> et_width = 0, et_height = 0, et_refresh = 0 \<rparr>,
       \<lparr> et_width = 0, et_height = 0, et_refresh = 0 \<rparr>,
       \<lparr> et_width = 0, et_height = 0, et_refresh = 0 \<rparr>,
       \<lparr> et_width = 1152, et_height = 870, et_refresh = 75 \<rparr> ]"

text \<open>
  The parsed EDID (\<open>edid_format_t\<close>). The two \<open>float\<close> fields (\<open>basic.gamma\<close>
  and \<open>detail.pixclk\<close>) are left out: nothing reads them. A timing description
  block is the C union of \<open>edid_detail_t\<close> and \<open>edid_monitor_desc_t\<close>, told apart
  by \<open>is_detail\<close>; for a monitor descriptor the parser stores nothing but the flag.
\<close>

record edid_prod_id_t =
  manuf_name :: "16 word"
  prod_code :: "16 word"
  serial_num :: "32 word"
  manuf_wk :: "8 word"
  manuf_yr :: "8 word"

record edid_struct_vsn_t =
  number :: "8 word"
  revision :: "8 word"

record edid_basic_params_t =
  input_def :: "8 word"
  max_horiz_sz :: "8 word"
  max_vert_sz :: "8 word"
  features :: "8 word"

record edid_colours_t =
  red_grn_low :: "16 word"
  blu_wht_low :: "16 word"
  red_x :: "16 word"
  red_y :: "16 word"
  grn_x :: "16 word"
  grn_y :: "16 word"
  blu_x :: "16 word"
  blu_y :: "16 word"
  wht_x :: "16 word"
  wht_y :: "16 word"

record edid_est_timings_t =
  timings_0 :: "8 word"
  timings_1 :: "8 word"
  resvd :: "8 word"

record edid_detail_t =
  hactl :: "32 word"
  hblankl :: "32 word"
  hactblankh :: "32 word"
  vactl :: "32 word"
  vblankl :: "32 word"
  vactblankh :: "32 word"
  hsyncoffl :: "32 word"
  hsyncwl :: "32 word"
  vsyncoffvsyncwl :: "32 word"
  synch :: "32 word"
  hsizel :: "32 word"
  vsizel :: "32 word"
  hvsizeh :: "32 word"
  hbord :: "8 word"
  vbord :: "8 word"
  flags :: "8 word"

datatype edid_timing_desc_t =
    Detail edid_detail_t
  | Monitor_desc

record edid_format_t =
  product :: edid_prod_id_t
  version :: edid_struct_vsn_t
  basic :: edid_basic_params_t
  colours :: edid_colours_t
  est_timings_of :: edid_est_timings_t
  std_timings :: "16 word list"  \<comment> \<open>\<open>uint16_t timing_id[8]\<close>\<close>
  timings :: "edid_timing_desc_t list"
  ext_blocks :: "8 word"

definition zero_mode :: dlo_mode_t where
  \<comment> \<open>What \<open>dlo_memset(&dev->native, 0, sizeof(dlo_mode_t))\<close> leaves.\<close>
  "zero_mode = \<lparr> view = \<lparr> width = 0, height = 0, bpp = 0, base = 0 \<rparr>, refresh = 0 \<rparr>"

text \<open>
  \<open>add_supported\<close> returns the updated index; the device it wrote to is returned
  with it. The store \<open>dev->supported[idx++]\<close> is unchecked.
\<close>

definition add_supported ::
  "dlo_device_t \<Rightarrow> nat \<Rightarrow> 16 word \<Rightarrow> 16 word \<Rightarrow> 8 word \<Rightarrow> (nat \<times> dlo_device_t) option" where
  "add_supported dev idx w h r =
     (case get_mode_number dev w h r 24 of
        None \<Rightarrow> None
      | Some num \<Rightarrow>
          if num \<noteq> DLO_INVALID_MODE then
            (if idx < DLO_MODE_DATA_NUM
             then Some (idx + 1, dev\<lparr> supported := (supported dev)[idx := num] \<rparr>)
             else None)
          else Some (idx, dev))"

text \<open>The loop \<open>for (bit = 0; bit < 24; bit++)\<close>, over the table entries left.\<close>

fun est_loop ::
  "dlo_device_t \<Rightarrow> nat \<Rightarrow> est_timing_t list \<Rightarrow> (nat \<times> dlo_device_t) option" where
  "est_loop dev idx [] = Some (idx, dev)"
| "est_loop dev idx (t # ts) =
     (if et_width t \<noteq> 0 then
        (case add_supported dev idx (et_width t) (et_height t) (et_refresh t) of
           None \<Rightarrow> None
         | Some (idx', dev') \<Rightarrow> est_loop dev' idx' ts)
      else est_loop dev idx ts)"

definition detail_width :: "edid_detail_t \<Rightarrow> 32 word" where
  "detail_width detail = hactl detail + push_bit 4 (hactblankh detail AND 0xF0)"

definition detail_height :: "edid_detail_t \<Rightarrow> 32 word" where
  "detail_height detail = vactl detail + push_bit 4 (vactblankh detail AND 0xF0)"

text \<open>
  The loop \<open>for (hz = 50; hz < 100; hz++)\<close>, over the refresh rates left. The
  \<open>uint32_t\<close> width and height are converted to \<open>uint16_t\<close> at the call.
\<close>

fun hz_loop ::
  "dlo_device_t \<Rightarrow> nat \<Rightarrow> edid_detail_t \<Rightarrow> 8 word list \<Rightarrow> (nat \<times> dlo_device_t) option" where
  "hz_loop dev idx detail [] = Some (idx, dev)"
| "hz_loop dev idx detail (hz # hzs) =
     (let prev = idx in
      case add_supported dev idx (ucast (detail_width detail)) (ucast (detail_height detail)) hz of
        None \<Rightarrow> None
      | Some (idx', dev') \<Rightarrow>
          if idx' \<noteq> prev then
            (if prev < DLO_MODE_DATA_NUM \<and> prev < length (supported dev') then
               (let num = supported dev' ! prev in
                if unat num < DLO_MODE_DATA_NUM
                then hz_loop (dev'\<lparr> native := mode_of_data (dlo_mode_data ! unat num) \<rparr>)
                       idx' detail hzs
                else None)
             else None)
          else hz_loop dev' idx' detail hzs)"

definition hz_values :: "8 word list" where
  \<comment> \<open>The values \<open>hz\<close> takes in \<open>for (hz = 50; hz < 100; hz++)\<close>.\<close>
  "hz_values = map of_nat [50..<100]"

text \<open>The loop \<open>for (timings = 0; timings < 4; timings++)\<close>, over the descriptors left.\<close>

fun desc_loop ::
  "dlo_device_t \<Rightarrow> nat \<Rightarrow> edid_timing_desc_t list \<Rightarrow> (nat \<times> dlo_device_t) option" where
  "desc_loop dev idx [] = Some (idx, dev)"
| "desc_loop dev idx (Monitor_desc # ds) = desc_loop dev idx ds"
| "desc_loop dev idx (Detail detail # ds) =
     (case hz_loop dev idx detail hz_values of
        None \<Rightarrow> None
      | Some (idx', dev') \<Rightarrow> desc_loop dev' idx' ds)"

text \<open>The loop \<open>while (idx < DLO_MODE_DATA_NUM - 1) dev->supported[idx++] = DLO_INVALID_MODE\<close>.\<close>

function fill_loop :: "32 word list \<Rightarrow> nat \<Rightarrow> 32 word list" where
  "fill_loop s idx =
     (if idx < DLO_MODE_DATA_NUM - 1 then fill_loop (s[idx := DLO_INVALID_MODE]) (idx + 1) else s)"
  by pat_completeness auto
termination
  by (relation "measure (\<lambda>(s, idx). DLO_MODE_DATA_NUM - 1 - idx)") auto

declare fill_loop.simps [simp del]

definition lookup_edid_modes ::
  "dlo_device_t \<Rightarrow> edid_format_t \<Rightarrow> (dlo_retcode_t \<times> dlo_device_t) option" where
  "lookup_edid_modes dev edid =
     (let dev0 = dev\<lparr> native := zero_mode \<rparr>;
          timings_field = (ucast (timings_0 (est_timings_of edid)) :: 32 word)
                    OR push_bit 8 (ucast (timings_1 (est_timings_of edid)))
                    OR push_bit 16 (ucast (resvd (est_timings_of edid)))
      in case est_loop dev0 0 est_timings of
           None \<Rightarrow> None
         | Some (idx1, dev1) \<Rightarrow>
             (case desc_loop dev1 idx1 (take 4 (timings edid)) of
                None \<Rightarrow> None
              | Some (idx2, dev2) \<Rightarrow>
                  Some (dlo_ok, dev2\<lparr> supported := fill_loop (supported dev2) idx2 \<rparr>)))"


section \<open>Staging bytes in the command buffer\<close>

text \<open>
  \<open>*(dev->bufptr)++ = c\<close>: the store is unchecked, so a cursor at or beyond
  \<open>bufend\<close> writes outside the buffer.
\<close>

definition put_byte :: "dlo_device_t \<Rightarrow> 8 word \<Rightarrow> dlo_device_t option" where
  "put_byte dev c =
     (if bufptr dev < length (buffer dev)
      then Some (dev\<lparr> buffer := (buffer dev)[bufptr dev := c], bufptr := bufptr dev + 1 \<rparr>)
      else None)"

definition buffer_free :: "dlo_device_t \<Rightarrow> int" where
  \<comment> \<open>The pointer difference \<open>dev->bufend - dev->bufptr\<close>, a signed value.\<close>
  "buffer_free dev = int (length (buffer dev)) - int (bufptr dev)"

definition vreg :: "dlo_device_t \<Rightarrow> 8 word \<Rightarrow> 8 word \<Rightarrow> (dlo_retcode_t \<times> dlo_device_t) option" where
  "vreg dev reg val =
     (if buffer_free dev < 4 then Some (dlo_err_buf_full, dev)
      else
        (case put_byte dev 0xAF of None \<Rightarrow> None | Some d1 \<Rightarrow>
         case put_byte d1 0x20 of None \<Rightarrow> None | Some d2 \<Rightarrow>
         case put_byte d2 reg of None \<Rightarrow> None | Some d3 \<Rightarrow>
         case put_byte d3 val of None \<Rightarrow> None | Some d4 \<Rightarrow>
         Some (dlo_ok, d4)))"

text \<open>
  The loop \<open>while (len--) *(dev->bufptr)++ = *buf++\<close>. \<open>buf\<close> is the list of the
  bytes that can be read from the pointer; reading more than it holds is a read
  outside the source block.
\<close>

fun vbuf_loop :: "dlo_device_t \<Rightarrow> 8 word list \<Rightarrow> nat \<Rightarrow> dlo_device_t option" where
  "vbuf_loop dev buf 0 = Some dev"
| "vbuf_loop dev [] (Suc n) = None"
| "vbuf_loop dev (c # cs) (Suc n) =
     (case put_byte dev c of None \<Rightarrow> None | Some d \<Rightarrow> vbuf_loop d cs n)"

text \<open>
  In \<open>dev->bufend - dev->bufptr < len\<close> the signed difference is converted to
  \<open>size_t\<close>. A cursor inside the buffer gives a difference from 0 upwards, compared
  as it is; a negative difference (a cursor beyond \<open>bufend\<close>) becomes a huge
  unsigned value that is never below the length of a block that fits in memory, so
  the test fails and the loop runs.
\<close>

definition vbuf :: "dlo_device_t \<Rightarrow> 8 word list \<Rightarrow> nat \<Rightarrow> (dlo_retcode_t \<times> dlo_device_t) option" where
  "vbuf dev buf len =
     (if 0 \<le> buffer_free dev \<and> buffer_free dev < int len then Some (dlo_err_buf_full, dev)
      else (case vbuf_loop dev buf len of None \<Rightarrow> None | Some d \<Rightarrow> Some (dlo_ok, d)))"

section \<open>The USB layer\<close>

text \<open>
  dlo\_usb.c is not among the sources. The functions that reach the adapter are
  modelled from the spec, which treats the transport as an opaque sink that reports a
  result for every transfer. The sink is a parameter \<open>usb\<close>: given the transfers
  made so far, the last one included, it gives the result of the last one.
\<close>

type_synonym usb_t = "usb_xfer list \<Rightarrow> dlo_retcode_t"

definition dlo_usb_write :: "usb_t \<Rightarrow> dlo_device_t \<Rightarrow> dlo_retcode_t \<times> dlo_device_t" where
  \<comment> \<open>Modelled from the spec: \<open>dlo_usb_write\<close> of the absent dlo\_usb.c, the flush. The
      staged bytes (from \<open>buffer\<close> up to \<open>bufptr\<close>) go to the bulk endpoint in stage
      order, and the cursor is reset to \<open>buffer\<close> whether or not the transfer worked.\<close>
  "dlo_usb_write usb dev =
     (let w = wire dev @ [Bulk_write (take (bufptr dev) (buffer dev))]
      in (usb w, dev\<lparr> bufptr := 0, wire := w \<rparr>))"

definition dlo_usb_chan_sel :: "usb_t \<Rightarrow> dlo_device_t \<Rightarrow> dlo_blob \<Rightarrow> dlo_retcode_t \<times> dlo_device_t" where
  \<comment> \<open>Modelled from the spec: \<open>dlo_usb_chan_sel\<close> of the absent dlo\_usb.c, a control
      transfer of the given block.\<close>
  "dlo_usb_chan_sel usb dev blob =
     (let w = wire dev @ [Chan_sel blob] in (usb w, dev\<lparr> wire := w \<rparr>))"

definition dlo_usb_write_buf :: "usb_t \<Rightarrow> dlo_device_t \<Rightarrow> dlo_blob \<Rightarrow> dlo_retcode_t \<times> dlo_device_t" where
  \<comment> \<open>Modelled from the spec: \<open>dlo_usb_write_buf\<close> of the absent dlo\_usb.c, a bulk
      transfer of the given block.\<close>
  "dlo_usb_write_buf usb dev blob =
     (let w = wire dev @ [Bulk_blob blob] in (usb w, dev\<lparr> wire := w \<rparr>))"

definition ERR ::
  "(dlo_retcode_t \<times> dlo_device_t) option \<Rightarrow>
   (dlo_device_t \<Rightarrow> (dlo_retcode_t \<times> dlo_device_t) option) \<Rightarrow>
   (dlo_retcode_t \<times> dlo_device_t) option" where
  \<comment> \<open>Modelled from the spec: the macro \<open>ERR(cmd)\<close> of the absent dlo\_defs.h. A
      caller returns the first result that is not \<open>dlo_ok\<close>; otherwise the code after
      the macro runs (the second argument).\<close>
  "ERR r rest =
     (case r of
        None \<Rightarrow> None
      | Some (rc, dev) \<Rightarrow> if rc \<noteq> dlo_ok then Some (rc, dev) else rest dev)"

section \<open>Mode selection\<close>

definition WRITE_VIDREG_LOCK :: "8 word list" where
  "WRITE_VIDREG_LOCK = [0xAF, 0x20, 0xFF, 0x00]"

definition WRITE_VIDREG_UNLOCK :: "8 word list" where
  "WRITE_VIDREG_UNLOCK = [0xAF, 0x20, 0xFF, 0xFF, 0xAF, 0xA0]"

definition DSIZEOF :: "8 word list \<Rightarrow> nat" where
  \<comment> \<open>Modelled from the spec: the macro is defined in dlo\_defs.h, which is not among
      the sources. It is the number of bytes of a block written as a string literal,
      the terminator not counted: the spec gives the lock command 4 bytes and the
      unlock command 6.\<close>
  "DSIZEOF block = length block"

definition set_base ::
  "usb_t \<Rightarrow> dlo_device_t \<Rightarrow> 32 word \<Rightarrow> 32 word \<Rightarrow> (dlo_retcode_t \<times> dlo_device_t) option" where
  "set_base usb dev base_addr base8_addr =
     ERR (vbuf dev WRITE_VIDREG_LOCK (DSIZEOF WRITE_VIDREG_LOCK)) (\<lambda>d1.
     ERR (vreg d1 0x20 (ucast (drop_bit 16 base_addr))) (\<lambda>d2.
     ERR (vreg d2 0x21 (ucast (drop_bit 8 base_addr))) (\<lambda>d3.
     ERR (vreg d3 0x22 (ucast base_addr)) (\<lambda>d4.
     ERR (vreg d4 0x26 (ucast (drop_bit 16 base8_addr))) (\<lambda>d5.
     ERR (vreg d5 0x27 (ucast (drop_bit 8 base8_addr))) (\<lambda>d6.
     ERR (vreg d6 0x28 (ucast base8_addr)) (\<lambda>d7.
     ERR (vbuf d7 WRITE_VIDREG_UNLOCK (DSIZEOF WRITE_VIDREG_UNLOCK)) (\<lambda>d8.
     ERR (Some (dlo_usb_write usb d8)) (\<lambda>d9.
     Some (dlo_ok, d9))))))))))"

text \<open>
  \<open>DLO_DL120_MODES\<close> is defined in an absent header and the spec gives it no value:
  it is the parameter \<open>dl120_modes\<close>. The product
  \<open>BYTES_PER_16BPP * width * height\<close> is added to a 32-bit address, so the sum is
  taken modulo \<open>2 ^ 32\<close>.
\<close>

definition mode_select ::
  "32 word \<Rightarrow> usb_t \<Rightarrow> dlo_device_t \<Rightarrow> dlo_mode_t \<Rightarrow> 32 word \<Rightarrow>
     (dlo_retcode_t \<times> dlo_device_t) option" where
  "mode_select dl120_modes usb dev desc mode_num =
     (if DLO_MODE_DATA_NUM \<le> unat mode_num \<or> mode_num = DLO_INVALID_MODE
      then Some (dlo_err_bad_mode, dev)
      else if base (view desc) AND 1 \<noteq> 0 then Some (dlo_err_bad_mode, dev)
      else
        (case dlo_usb_write usb dev of (rc, d1) \<Rightarrow>
         if dlo_ok \<noteq> rc then Some (retcode_of_modenum DLO_INVALID_MODE, d1)
         else
           (let d2 = d1\<lparr> mode := (mode d1)\<lparr> view := (view (mode d1))\<lparr> base := base (view desc) \<rparr> \<rparr>,
                         base8 := base (view desc)
                                  + BYTES_PER_16BPP * ucast (width (view desc))
                                                    * ucast (height (view desc)) \<rparr>
            in
            ERR (set_base usb d2 (base (view (mode d2))) (base8 d2)) (\<lambda>d3.
            ERR (if width (view desc) \<noteq> width (view (mode d3)) \<or>
                    height (view desc) \<noteq> height (view (mode d3)) \<or>
                    bpp (view desc) \<noteq> bpp (view (mode d3))
                 then
                   ERR (Some (dlo_usb_chan_sel usb d3 (md_mode_en (dlo_mode_data ! unat mode_num)))) (\<lambda>e1.
                   ERR (Some (dlo_usb_write_buf usb e1 (md_data (dlo_mode_data ! unat mode_num)))) (\<lambda>e2.
                   ERR (Some (dlo_usb_chan_sel usb e2 DLO_MODE_POSTAMBLE)) (\<lambda>e3.
                   Some (dlo_ok, e3))))
                 else Some (dlo_ok, d3)) (\<lambda>d4.
            (let d5 = d4\<lparr> mode := desc\<lparr> refresh := md_refresh (dlo_mode_data ! unat mode_num) \<rparr>,
                          low_blank := md_low_blank (dlo_mode_data ! unat mode_num) \<rparr>
             in
             ERR (Some (dlo_usb_write usb d5)) (\<lambda>d6.
             Some (if mode_num < dl120_modes then dlo_warn_dl160_mode else dlo_ok, d6))))))))"

definition dlo_mode_change ::
  "32 word \<Rightarrow> usb_t \<Rightarrow> dlo_device_t \<Rightarrow> dlo_mode_t \<Rightarrow> 32 word \<Rightarrow>
     (dlo_retcode_t \<times> dlo_device_t) option" where
  "dlo_mode_change dl120_modes usb dev desc mode_num =
     (if mode_num = DLO_INVALID_MODE then
        (case get_mode_number dev (width (view desc)) (height (view desc)) 0 (bpp (view desc)) of
           None \<Rightarrow> None
         | Some m \<Rightarrow> mode_select dl120_modes usb dev desc m)
      else mode_select dl120_modes usb dev desc mode_num)"


section \<open>The EDID parser\<close>

text \<open>
  A pointer into the EDID block is the list of the block's bytes and an offset.
\<close>

definition RD_B :: "8 word list \<Rightarrow> nat \<Rightarrow> 8 word" where
  \<comment> \<open>Modelled from the spec: the macro \<open>RD_B\<close> of the absent dlo\_defs.h, the spec's
      \<open>read_u8(p, off)\<close>. The offset is within the block wherever the parser
      uses the macro: \<open>dlo_mode_parse_edid\<close> is entered with a block of at least
      128 bytes and reads no offset above \<open>0x7E\<close> through it. The one read
      that can leave the block is the string read of \<open>monitor_string\<close>.\<close>
  "RD_B p off = p ! off"

definition RD_S_le :: "8 word list \<Rightarrow> nat \<Rightarrow> 16 word" where
  \<comment> \<open>Modelled from the spec: \<open>LETOHS(RD_S(p))\<close>, the spec's \<open>read_u16_le\<close>: the
      host-order value of two little-endian bytes.\<close>
  "RD_S_le p off = ucast (RD_B p off) OR push_bit 8 (ucast (RD_B p (off + 1)))"

definition RD_L_le :: "8 word list \<Rightarrow> nat \<Rightarrow> 32 word" where
  \<comment> \<open>Modelled from the spec: \<open>LETOHL(RD_L(p))\<close>, the spec's \<open>read_u32_le\<close>.\<close>
  "RD_L_le p off =
     ucast (RD_B p off) OR push_bit 8 (ucast (RD_B p (off + 1)))
       OR push_bit 16 (ucast (RD_B p (off + 2))) OR push_bit 24 (ucast (RD_B p (off + 3)))"

definition header :: "8 word list" where
  "header = [0x00, 0xFF, 0xFF, 0xFF, 0xFF, 0xFF, 0xFF, 0x00]"

definition EDID_STRUCT_SZ :: nat where
  \<comment> \<open>Modelled from the spec: the macro is defined in an absent header; the spec
      gives the EDID block 128 bytes.\<close>
  "EDID_STRUCT_SZ = 128"

definition bad_edid_checksum :: "8 word list \<Rightarrow> nat \<Rightarrow> bool" where
  \<comment> \<open>\<open>csum\<close> is a \<open>uint8_t\<close>: each \<open>csum += ptr[i]\<close> wraps modulo 256.\<close>
  "bad_edid_checksum ptr sz = (0 \<noteq> fold (\<lambda>byte csum. csum + byte) (take sz ptr) (0 :: 8 word))"

text \<open>
  \<open>parse_edid_colours\<close> receives the pointer \<open>ptr\<close> and reads at
  \<open>ptr + 0x19\<close> to \<open>ptr + 0x22\<close>. The assignments run in order: the expansion of
  \<open>wht_x\<close> reads \<open>wht_y\<close>, which still holds its raw byte at that point.
\<close>

definition parse_edid_colours :: "8 word list \<Rightarrow> nat \<Rightarrow> edid_colours_t" where
  "parse_edid_colours p ptr =
     (let c0 = \<lparr> red_grn_low = ucast (RD_B p (ptr + 0x19)),
                  blu_wht_low = ucast (RD_B p (ptr + 0x1A)),
                  red_x = ucast (RD_B p (ptr + 0x1B)),
                  red_y = ucast (RD_B p (ptr + 0x1C)),
                  grn_x = ucast (RD_B p (ptr + 0x1D)),
                  grn_y = ucast (RD_B p (ptr + 0x1E)),
                  blu_x = ucast (RD_B p (ptr + 0x1F)),
                  blu_y = ucast (RD_B p (ptr + 0x20)),
                  wht_x = ucast (RD_B p (ptr + 0x21)),
                  wht_y = ucast (RD_B p (ptr + 0x22)) \<rparr>;
          c1 = c0\<lparr> red_x := drop_bit 6 (red_grn_low c0 AND 0xC0) + push_bit 2 (red_x c0) \<rparr>;
          c2 = c1\<lparr> red_y := drop_bit 4 (red_grn_low c1 AND 0x30) + push_bit 2 (red_y c1) \<rparr>;
          c3 = c2\<lparr> grn_x := drop_bit 2 (red_grn_low c2 AND 0x0C) + push_bit 2 (grn_x c2) \<rparr>;
          c4 = c3\<lparr> grn_y := drop_bit 0 (red_grn_low c3 AND 0x03) + push_bit 2 (grn_y c3) \<rparr>;
          c5 = c4\<lparr> blu_x := drop_bit 6 (blu_wht_low c4 AND 0xC0) + push_bit 2 (blu_x c4) \<rparr>;
          c6 = c5\<lparr> blu_y := drop_bit 4 (blu_wht_low c5 AND 0x40) + push_bit 2 (blu_y c5) \<rparr>;
          c7 = c6\<lparr> wht_x := drop_bit 2 (blu_wht_low c6 AND 0x0C) + push_bit 2 (wht_y c6) \<rparr>;
          c8 = c7\<lparr> wht_y := drop_bit 0 (blu_wht_low c7 AND 0x03) + push_bit 2 (wht_y c7) \<rparr>
      in c8)"

text \<open>
  The monitor string. \<open>snprintf\<close> is called with the buffer \<open>buf\<close>, the size
  13, the format \<open>%s\<close> and the pointer \<open>ptr + 5\<close>. The conversion has no
  precision, so it takes a null-terminated string: the bytes from \<open>ptr + 5\<close> are
  read up to the first zero byte, whatever the size of \<open>buf\<close>. The read is defined
  only when a zero byte follows among the bytes that can be read from the pointer;
  otherwise it runs past them. At most 12 characters reach \<open>buf\<close>, which is then
  cut at the first newline.
\<close>

definition monitor_string :: "8 word list \<Rightarrow> nat \<Rightarrow> 8 word list option" where
  "monitor_string p off =
     (if list_ex (\<lambda>c. c = 0) (drop off p)
      then Some (takeWhile (\<lambda>c. c \<noteq> 0x0A) (take 12 (takeWhile (\<lambda>c. c \<noteq> 0) (drop off p))))
      else None)"

text \<open>
  \<open>parse_edid_detail_desc\<close>. For a monitor descriptor the function sets the flag
  and, for the types \<open>0xFC\<close>, \<open>0xFE\<close> and \<open>0xFF\<close>, copies the monitor string
  into a local buffer that it then drops; only the flag is kept. The result is
  \<open>None\<close> when the string read is not defined.
\<close>

definition parse_edid_detail_desc :: "8 word list \<Rightarrow> nat \<Rightarrow> edid_timing_desc_t option" where
  "parse_edid_detail_desc p ptr =
     (if RD_B p ptr \<noteq> 0 \<or> RD_B p (ptr + 1) \<noteq> 0 \<or> RD_B p (ptr + 2) \<noteq> 0 then
        Some (Detail \<lparr> hactl = ucast (RD_B p (ptr + 0x02)),
                 hblankl = ucast (RD_B p (ptr + 0x03)),
                 hactblankh = ucast (RD_B p (ptr + 0x04)),
                 vactl = ucast (RD_B p (ptr + 0x05)),
                 vblankl = ucast (RD_B p (ptr + 0x06)),
                 vactblankh = ucast (RD_B p (ptr + 0x07)),
                 hsyncoffl = ucast (RD_B p (ptr + 0x08)),
                 hsyncwl = ucast (RD_B p (ptr + 0x09)),
                 vsyncoffvsyncwl = ucast (RD_B p (ptr + 0x0A)),
                 synch = ucast (RD_B p (ptr + 0x0B)),
                 hsizel = ucast (RD_B p (ptr + 0x0C)),
                 vsizel = ucast (RD_B p (ptr + 0x0D)),
                 hvsizeh = ucast (RD_B p (ptr + 0x0E)),
                 hbord = RD_B p (ptr + 0x0F),
                 vbord = RD_B p (ptr + 0x10),
                 flags = RD_B p (ptr + 0x11) \<rparr>)
      else if RD_B p (ptr + 3) = 0xFC \<or> RD_B p (ptr + 3) = 0xFE \<or> RD_B p (ptr + 3) = 0xFF then
        (case monitor_string p (ptr + 5) of
           None \<Rightarrow> None
         | Some buf \<Rightarrow> Some Monitor_desc)
      else Some Monitor_desc)"

text \<open>
  The store \<open>edid.std_timings.timing_id[i] = v\<close>. The array has 8 elements. At
  an index from 8 on the store falls behind the array: it stays inside the static
  record \<open>edid\<close>, where the 16 bytes of the array are followed, after the
  padding if any, by \<open>edid.timings[0]\<close>, and lands on the leading bytes of that
  member (the flag, the pixel clock and the first two timing parameters). These
  bytes belong to no element of the array, and \<open>parse_edid_detail_desc\<close> assigns
  them again before anything reads them, or, for a monitor descriptor, assigns the
  flag and leaves the rest to the payload that nothing reads. So such a store
  changes no field of the model.
\<close>

definition store_timing_id :: "nat \<Rightarrow> 16 word \<Rightarrow> 16 word list \<Rightarrow> 16 word list" where
  "store_timing_id i v ids = (if i < length ids then ids[i := v] else ids)"

definition sizeof_timing_id :: nat where
  \<comment> \<open>\<open>sizeof(edid.std_timings.timing_id)\<close>: 8 elements of 2 bytes.\<close>
  "sizeof_timing_id = 8 * 2"

text \<open>
  The descriptor that \<open>parse_edid_detail_desc\<close> has stored in \<open>edid.timings[i]\<close>.
  The flag of a monitor descriptor is assigned before the monitor string is read, so
  the slot holds a monitor descriptor also when that read is not defined.
\<close>

definition stored_desc :: "8 word list \<Rightarrow> nat \<Rightarrow> edid_timing_desc_t" where
  "stored_desc p ptr =
     (case parse_edid_detail_desc p ptr of
        None \<Rightarrow> Monitor_desc
      | Some d \<Rightarrow> d)"

text \<open>
  The assignments of \<open>dlo_mode_parse_edid\<close> that fill the static \<open>edid\<close> record,
  in the order of the source. The loop over the standard timings runs to
  \<open>sizeof(edid.std_timings.timing_id)\<close>, which is 16 for an array of 8 elements: it
  stores the bytes from \<open>0x26\<close> on, one per element, the last eight of them behind
  the array. Whether the parse gets through the four descriptors is decided in
  \<open>dlo_mode_parse_edid\<close>.
\<close>

definition parse_edid_record :: "8 word list \<Rightarrow> edid_format_t" where
  "parse_edid_record ptr =
     \<lparr> product = \<lparr> manuf_name = RD_S_le ptr 0x08,
                     prod_code = RD_S_le ptr 0x0A,
                     serial_num = RD_L_le ptr 0x0C,
                     manuf_wk = RD_B ptr 0x10,
                     manuf_yr = RD_B ptr 0x11 \<rparr>,
       version = \<lparr> number = RD_B ptr 0x12, revision = RD_B ptr 0x13 \<rparr>,
       basic = \<lparr> input_def = RD_B ptr 0x14,
                   max_horiz_sz = RD_B ptr 0x15,
                   max_vert_sz = RD_B ptr 0x16,
                   features = RD_B ptr 0x18 \<rparr>,
       colours = parse_edid_colours ptr 0x19,
       est_timings_of = \<lparr> timings_0 = RD_B ptr 0x23,
                            timings_1 = RD_B ptr 0x24,
                            resvd = RD_B ptr 0x25 \<rparr>,
       std_timings = fold (\<lambda>i. store_timing_id i (ucast (RD_B ptr (0x26 + i))))
                       [0..<sizeof_timing_id] (replicate 8 0),
       timings = map (\<lambda>i. stored_desc ptr (0x36 + i * 0x12)) [0..<4],
       ext_blocks = RD_B ptr 0x7E \<rparr>"

text \<open>
  The four calls of \<open>parse_edid_detail_desc\<close> all return: no monitor string is read
  past the readable bytes.
\<close>

definition descs_parsed :: "8 word list \<Rightarrow> bool" where
  "descs_parsed ptr =
     list_all (\<lambda>i. parse_edid_detail_desc ptr (0x36 + i * 0x12) \<noteq> None) [0..<4]"

text \<open>
  \<open>ptr\<close> is the list of the bytes that can be read from the pointer, and \<open>sz\<close>
  is the C parameter \<open>size\<close>. The \<open>ASSERT(EDID_STRUCT_SZ == size)\<close> is the
  function's precondition: a call that breaks it, or that passes fewer bytes than
  \<open>size\<close>, has no defined result.
  \<open>memcmp(header, ptr, sizeof(header))\<close> is non-zero exactly when the first eight
  bytes differ from \<open>header\<close>. Past the two checks the record is filled, and the
  result is defined when every monitor string read is.
\<close>

definition dlo_mode_parse_edid ::
  "dlo_device_t \<Rightarrow> 8 word list \<Rightarrow> nat \<Rightarrow> (dlo_retcode_t \<times> dlo_device_t) option" where
  "dlo_mode_parse_edid dev ptr sz =
     (if EDID_STRUCT_SZ = sz \<and> sz \<le> length ptr then
        (if take (length header) ptr \<noteq> header then Some (dlo_err_edid_fail, dev)
         else if bad_edid_checksum ptr sz then Some (dlo_err_edid_fail, dev)
         else if descs_parsed ptr then lookup_edid_modes dev (parse_edid_record ptr)
         else None)
      else None)"


section \<open>Specification-side definitions\<close>

text \<open>
  The matching relation and the lookup as the specification words them: walk the
  supported list in order, stop at the first sentinel (or after
  \<open>DLO_MODE_DATA_NUM\<close> entries), return the first index that matches.
\<close>

definition mode_matches :: "32 word \<Rightarrow> 16 word \<Rightarrow> 16 word \<Rightarrow> 8 word \<Rightarrow> 8 word \<Rightarrow> bool" where
  "mode_matches n w h r b =
     (md_width (dlo_mode_data ! unat n) = w \<and>
      (b = 0 \<or> md_bpp (dlo_mode_data ! unat n) = b) \<and>
      (h = 0 \<or> md_height (dlo_mode_data ! unat n) = h) \<and>
      (r = 0 \<or> md_refresh (dlo_mode_data ! unat n) = r))"

definition before_sentinel :: "dlo_device_t \<Rightarrow> 32 word list" where
  "before_sentinel dev =
     takeWhile (\<lambda>n. n \<noteq> DLO_INVALID_MODE) (take DLO_MODE_DATA_NUM (supported dev))"

definition spec_lookup :: "dlo_device_t \<Rightarrow> 16 word \<Rightarrow> 16 word \<Rightarrow> 8 word \<Rightarrow> 8 word \<Rightarrow> 32 word" where
  "spec_lookup dev w h r b =
     (if b \<noteq> 24 then DLO_INVALID_MODE
      else case find (\<lambda>n. mode_matches n w h r b) (before_sentinel dev) of
             Some n \<Rightarrow> n
           | None \<Rightarrow> DLO_INVALID_MODE)"

definition mode_entry :: "16 word \<Rightarrow> 16 word \<Rightarrow> 8 word \<Rightarrow> 8 word \<Rightarrow> dlo_mode_data_t" where
  \<comment> \<open>The catalogue entry \<open>init_mode\<close> writes for the given parameters.\<close>
  "mode_entry w h r b =
     \<lparr> md_width = w, md_height = h, md_refresh = r, md_bpp = b,
       md_data = DLO_MODE_DATA w h r b, md_mode_en = DLO_MODE_ENABLE w h r b,
       md_low_blank = False \<rparr>"

section \<open>Example inputs\<close>

definition blank_device :: dlo_device_t where
  \<comment> \<open>A device with a 64-byte command buffer, nothing staged, no mode set, and a
      supported array that has not been filled yet.\<close>
  "blank_device =
     \<lparr> buffer = replicate 64 0, bufptr = 0, mode = zero_mode, base8 = 0,
       low_blank = False, native = zero_mode,
       supported = replicate DLO_MODE_DATA_NUM 0, wire = [] \<rparr>"

definition example_device :: dlo_device_t where
  \<comment> \<open>The blank device with the default supported list.\<close>
  "example_device = use_default_modes blank_device"

text \<open>The device after the given bytes have been staged at the cursor.\<close>

definition staged :: "dlo_device_t \<Rightarrow> 8 word list \<Rightarrow> dlo_device_t" where
  "staged dev bytes =
     dev\<lparr> buffer := take (bufptr dev) (buffer dev) @ bytes
                      @ drop (bufptr dev + length bytes) (buffer dev),
          bufptr := bufptr dev + length bytes \<rparr>"

text \<open>A device whose command buffer has room for three bytes only.\<close>

definition small_buffer_device :: dlo_device_t where
  "small_buffer_device = example_device\<lparr> buffer := [0, 0, 0] \<rparr>"

text \<open>
  The mode number \<open>dlo_mode_change\<close> hands to \<open>mode_select\<close>: the one passed, or
  the result of the lookup when \<open>DLO_INVALID_MODE\<close> was passed.
\<close>

definition resolved_mode :: "dlo_device_t \<Rightarrow> dlo_mode_t \<Rightarrow> 32 word \<Rightarrow> 32 word option" where
  "resolved_mode dev desc mode_num =
     (if mode_num = DLO_INVALID_MODE
      then get_mode_number dev (width (view desc)) (height (view desc)) 0 (bpp (view desc))
      else Some mode_num)"

text \<open>The fields of the device that describe the selected mode.\<close>

definition mode_state :: "dlo_device_t \<Rightarrow> dlo_mode_t \<times> 32 word \<times> bool" where
  "mode_state dev = (mode dev, base8 dev, low_blank dev)"

text \<open>A USB layer on which every transfer works, and one on which every transfer fails.\<close>

definition usb_ok :: usb_t where
  "usb_ok w = dlo_ok"

definition usb_fail :: usb_t where
  "usb_fail w = dlo_err_other 1"

text \<open>A desired mode: 1024 by 768 at 24 bpp, at device address \<open>0x100000\<close>.\<close>

definition example_mode :: dlo_mode_t where
  "example_mode = \<lparr> view = \<lparr> width = 1024, height = 768, bpp = 24, base = 0x100000 \<rparr>, refresh = 0 \<rparr>"

text \<open>
  A well-formed supported array: \<open>DLO_MODE_DATA_NUM\<close> entries, each the sentinel
  or a catalogue index. \<open>use_default_modes\<close> establishes it and
  \<open>lookup_edid_modes\<close> keeps it.
\<close>

definition supported_ok :: "dlo_device_t \<Rightarrow> bool" where
  "supported_ok dev =
     (length (supported dev) = DLO_MODE_DATA_NUM \<and>
      list_all (\<lambda>n. n = DLO_INVALID_MODE \<or> unat n < DLO_MODE_DATA_NUM) (supported dev))"

text \<open>
  The invariant of the loops of \<open>lookup_edid_modes\<close>: the array is well formed and
  the \<open>idx\<close> entries written so far are catalogue indices.
\<close>

definition build_inv :: "dlo_device_t \<Rightarrow> nat \<Rightarrow> bool" where
  "build_inv dev idx =
     (supported_ok dev \<and> idx \<le> DLO_MODE_DATA_NUM \<and>
      (\<forall>j<idx. unat (supported dev ! j) < DLO_MODE_DATA_NUM))"

text \<open>
  Whether some catalogue entry has the given width, height and refresh rate (zero
  standing for any value): only then can a lookup with \<open>bpp = 24\<close> find a mode.
\<close>

definition can_hit :: "16 word \<Rightarrow> 16 word \<Rightarrow> 8 word \<Rightarrow> bool" where
  "can_hit w h r =
     list_ex (\<lambda>d. md_width d = w \<and> (h = 0 \<or> md_height d = h) \<and> (r = 0 \<or> md_refresh d = r))
       dlo_mode_data"

text \<open>The refresh rates the catalogue has for a width.\<close>

definition refreshes_for :: "16 word \<Rightarrow> 8 word list" where
  "refreshes_for w = remdups (map md_refresh (filter (\<lambda>d. md_width d = w) dlo_mode_data))"

text \<open>An established timing that \<open>lookup_edid_modes\<close> tries and that the catalogue has.\<close>

definition est_can_hit :: "est_timing_t \<Rightarrow> bool" where
  "est_can_hit t = (et_width t \<noteq> 0 \<and> can_hit (et_width t) (et_height t) (et_refresh t))"

text \<open>
  EDID blocks. \<open>edid_est_640\<close> has a valid header and checksum and only bit 5 of
  \<open>timings[0]\<close> set (offset \<open>0x23\<close>); \<open>edid_detail_1280\<close> has a valid header
  and checksum and one detailed timing descriptor, at \<open>0x36\<close>, for 1280 by 1024.
\<close>

definition edid_est_640 :: "8 word list" where
  "edid_est_640 =
     [0x00, 0xFF, 0xFF, 0xFF, 0xFF, 0xFF, 0xFF, 0x00, 0x00, 0x00, 0x00, 0x00, 0x00, 0x00, 0x00, 0x00,
      0x00, 0x00, 0x00, 0x00, 0x00, 0x00, 0x00, 0x00, 0x00, 0x00, 0x00, 0x00, 0x00, 0x00, 0x00, 0x00,
      0x00, 0x00, 0x00, 0x20, 0x00, 0x00, 0x00, 0x00, 0x00, 0x00, 0x00, 0x00, 0x00, 0x00, 0x00, 0x00,
      0x00, 0x00, 0x00, 0x00, 0x00, 0x00, 0x00, 0x00, 0x00, 0x00, 0x00, 0x00, 0x00, 0x00, 0x00, 0x00,
      0x00, 0x00, 0x00, 0x00, 0x00, 0x00, 0x00, 0x00, 0x00, 0x00, 0x00, 0x00, 0x00, 0x00, 0x00, 0x00,
      0x00, 0x00, 0x00, 0x00, 0x00, 0x00, 0x00, 0x00, 0x00, 0x00, 0x00, 0x00, 0x00, 0x00, 0x00, 0x00,
      0x00, 0x00, 0x00, 0x00, 0x00, 0x00, 0x00, 0x00, 0x00, 0x00, 0x00, 0x00, 0x00, 0x00, 0x00, 0x00,
      0x00, 0x00, 0x00, 0x00, 0x00, 0x00, 0x00, 0x00, 0x00, 0x00, 0x00, 0x00, 0x00, 0x00, 0x00, 0xE6]"

definition edid_detail_1280 :: "8 word list" where
  "edid_detail_1280 =
     [0x00, 0xFF, 0xFF, 0xFF, 0xFF, 0xFF, 0xFF, 0x00, 0x00, 0x00, 0x00, 0x00, 0x00, 0x00, 0x00, 0x00,
      0x00, 0x00, 0x00, 0x00, 0x00, 0x00, 0x00, 0x00, 0x00, 0x00, 0x00, 0x00, 0x00, 0x00, 0x00, 0x00,
      0x00, 0x00, 0x00, 0x00, 0x00, 0x00, 0x00, 0x00, 0x00, 0x00, 0x00, 0x00, 0x00, 0x00, 0x00, 0x00,
      0x00, 0x00, 0x00, 0x00, 0x00, 0x00, 0x30, 0x2A, 0x00, 0x00, 0x50, 0x00, 0x00, 0x40, 0x00, 0x00,
      0x00, 0x00, 0x00, 0x00, 0x00, 0x00, 0x00, 0x00, 0x00, 0x00, 0x00, 0x00, 0x00, 0x00, 0x00, 0x00,
      0x00, 0x00, 0x00, 0x00, 0x00, 0x00, 0x00, 0x00, 0x00, 0x00, 0x00, 0x00, 0x00, 0x00, 0x00, 0x00,
      0x00, 0x00, 0x00, 0x00, 0x00, 0x00, 0x00, 0x00, 0x00, 0x00, 0x00, 0x00, 0x00, 0x00, 0x00, 0x00,
      0x00, 0x00, 0x00, 0x00, 0x00, 0x00, 0x00, 0x00, 0x00, 0x00, 0x00, 0x00, 0x00, 0x00, 0x00, 0x1C]"

text \<open>
  \<open>edid_monitor_name\<close> has a valid header and checksum, one extension block
  announced at \<open>0x7E\<close>, and in its last descriptor, at \<open>0x6C\<close>, a monitor
  name (type \<open>0xFC\<close>): the 13 bytes from \<open>0x71\<close> hold \<open>Monitor\<close>, a
  newline and five spaces, as the EDID format pads a name, with no zero byte.
\<close>

definition edid_monitor_name :: "8 word list" where
  "edid_monitor_name =
     [0x00, 0xFF, 0xFF, 0xFF, 0xFF, 0xFF, 0xFF, 0x00, 0x00, 0x00, 0x00, 0x00, 0x00, 0x00, 0x00, 0x00,
      0x00, 0x00, 0x00, 0x00, 0x00, 0x00, 0x00, 0x00, 0x00, 0x00, 0x00, 0x00, 0x00, 0x00, 0x00, 0x00,
      0x00, 0x00, 0x00, 0x00, 0x00, 0x00, 0x00, 0x00, 0x00, 0x00, 0x00, 0x00, 0x00, 0x00, 0x00, 0x00,
      0x00, 0x00, 0x00, 0x00, 0x00, 0x00, 0x00, 0x00, 0x00, 0x00, 0x00, 0x00, 0x00, 0x00, 0x00, 0x00,
      0x00, 0x00, 0x00, 0x00, 0x00, 0x00, 0x00, 0x00, 0x00, 0x00, 0x00, 0x00, 0x00, 0x00, 0x00, 0x00,
      0x00, 0x00, 0x00, 0x00, 0x00, 0x00, 0x00, 0x00, 0x00, 0x00, 0x00, 0x00, 0x00, 0x00, 0x00, 0x00,
      0x00, 0x00, 0x00, 0x00, 0x00, 0x00, 0x00, 0x00, 0x00, 0x00, 0x00, 0x00, 0x00, 0x00, 0x00, 0xFC,
      0x00, 0x4D, 0x6F, 0x6E, 0x69, 0x74, 0x6F, 0x72, 0x0A, 0x20, 0x20, 0x20, 0x20, 0x20, 0x01, 0x77]"

text \<open>The detailed timing descriptor of \<open>edid_detail_1280\<close> as parsed.\<close>

definition detail_1280 :: edid_detail_t where
  "detail_1280 =
     \<lparr> hactl = 0, hblankl = 0, hactblankh = 0x50, vactl = 0, vblankl = 0, vactblankh = 0x40,
       hsyncoffl = 0, hsyncwl = 0, vsyncoffvsyncwl = 0, synch = 0, hsizel = 0, vsizel = 0,
       hvsizeh = 0, hbord = 0, vbord = 0, flags = 0 \<rparr>"

text \<open>
  The supported array of \<open>example_device\<close> after the loop over the established
  timings.
\<close>

definition est_supported :: "32 word list" where
  "est_supported =
     [26, 27, 32, 34, 30, 14, 19, 20, 21, 24, 25,
      11, 12, 13, 14, 15, 16, 17, 18, 19, 20,
      21, 22, 23, 24, 25, 26, 27, 28, 29, 30, 31, 32, 33, 34]"

text \<open>128 zero bytes, and a valid header followed by 120 zero bytes.\<close>

definition edid_zeros :: "8 word list" where
  "edid_zeros = replicate 128 0"

definition edid_bad_checksum :: "8 word list" where
  "edid_bad_checksum = header @ replicate 120 0"

text \<open>
  An EDID block with a valid header and checksum whose colour characteristics
  (\<open>0x19\<close> to \<open>0x22\<close>) are \<open>00 30 80 00 00 00 00 00 01 02\<close>; every other byte
  between the header and the checksum is zero.
\<close>

definition edid_colours_probe :: "8 word list" where
  "edid_colours_probe =
     [0x00, 0xFF, 0xFF, 0xFF, 0xFF, 0xFF, 0xFF, 0x00, 0x00, 0x00, 0x00, 0x00, 0x00, 0x00, 0x00, 0x00,
      0x00, 0x00, 0x00, 0x00, 0x00, 0x00, 0x00, 0x00, 0x00, 0x00, 0x30, 0x80, 0x00, 0x00, 0x00, 0x00,
      0x00, 0x01, 0x02, 0x00, 0x00, 0x00, 0x00, 0x00, 0x00, 0x00, 0x00, 0x00, 0x00, 0x00, 0x00, 0x00,
      0x00, 0x00, 0x00, 0x00, 0x00, 0x00, 0x00, 0x00, 0x00, 0x00, 0x00, 0x00, 0x00, 0x00, 0x00, 0x00,
      0x00, 0x00, 0x00, 0x00, 0x00, 0x00, 0x00, 0x00, 0x00, 0x00, 0x00, 0x00, 0x00, 0x00, 0x00, 0x00,
      0x00, 0x00, 0x00, 0x00, 0x00, 0x00, 0x00, 0x00, 0x00, 0x00, 0x00, 0x00, 0x00, 0x00, 0x00, 0x00,
      0x00, 0x00, 0x00, 0x00, 0x00, 0x00, 0x00, 0x00, 0x00, 0x00, 0x00, 0x00, 0x00, 0x00, 0x00, 0x00,
      0x00, 0x00, 0x00, 0x00, 0x00, 0x00, 0x00, 0x00, 0x00, 0x00, 0x00, 0x00, 0x00, 0x00, 0x00, 0x53]"

text \<open>
  The colour characteristics as the specification words them: read at \<open>0x19\<close> to
  \<open>0x22\<close> of the block, every channel expanded from its own two low bits and its
  own high byte.
\<close>

definition spec_edid_colours :: "8 word list \<Rightarrow> edid_colours_t" where
  "spec_edid_colours p =
     (let rg = ucast (RD_B p 0x19) :: 16 word; bw = ucast (RD_B p 0x1A) :: 16 word
      in \<lparr> red_grn_low = rg, blu_wht_low = bw,
           red_x = drop_bit 6 (rg AND 0xC0) OR push_bit 2 (ucast (RD_B p 0x1B)),
           red_y = drop_bit 4 (rg AND 0x30) OR push_bit 2 (ucast (RD_B p 0x1C)),
           grn_x = drop_bit 2 (rg AND 0x0C) OR push_bit 2 (ucast (RD_B p 0x1D)),
           grn_y = (rg AND 0x03) OR push_bit 2 (ucast (RD_B p 0x1E)),
           blu_x = drop_bit 6 (bw AND 0xC0) OR push_bit 2 (ucast (RD_B p 0x1F)),
           blu_y = drop_bit 4 (bw AND 0x30) OR push_bit 2 (ucast (RD_B p 0x20)),
           wht_x = drop_bit 2 (bw AND 0x0C) OR push_bit 2 (ucast (RD_B p 0x21)),
           wht_y = (bw AND 0x03) OR push_bit 2 (ucast (RD_B p 0x22)) \<rparr>)"

text \<open>
  A supported array of \<open>example_device\<close> after a build: the mode numbers added, the
  sentinels the fill loop wrote, and the last entry, which the fill loop leaves as it
  was (34 in the default list).
\<close>

definition built_supported :: "32 word list \<Rightarrow> 32 word list" where
  "built_supported added =
     added @ replicate (DLO_MODE_DATA_NUM - 1 - length added) DLO_INVALID_MODE @ [34]"

section \<open>The catalogue as a table\<close>

lemma init_mode_Cons_0: "init_mode 0 w h r b (x # xs) = mode_entry w h r b # xs"
  by (simp add: init_mode_def mode_entry_def)

lemma init_mode_Cons_Suc: "init_mode (Suc n) w h r b (x # xs) = x # init_mode n w h r b xs"
  by (simp add: init_mode_def)

lemma dlo_mode_data_eq:
  "dlo_mode_data =
    [mode_entry 1920 1080 60 24, mode_entry 1600 1200 60 24, mode_entry 1400 1050 85 24,
     mode_entry 1400 1050 75 24, mode_entry 1400 1050 60 24, mode_entry 1400 1050 60 24,
     mode_entry 1366 768 60 24, mode_entry 1360 768 60 24, mode_entry 1280 960 85 24,
     mode_entry 1280 960 60 24, mode_entry 1280 800 60 24, mode_entry 1280 768 85 24,
     mode_entry 1280 768 75 24, mode_entry 1280 1024 85 24, mode_entry 1280 1024 75 24,
     mode_entry 1280 1024 60 24, mode_entry 1280 768 60 24, mode_entry 1152 864 75 24,
     mode_entry 1024 768 85 24, mode_entry 1024 768 75 24, mode_entry 1024 768 70 24,
     mode_entry 1024 768 60 24, mode_entry 848 480 60 24, mode_entry 800 600 85 24,
     mode_entry 800 600 75 24, mode_entry 800 600 72 24, mode_entry 800 600 60 24,
     mode_entry 800 600 56 24, mode_entry 800 480 60 24, mode_entry 720 400 85 24,
     mode_entry 720 400 70 24, mode_entry 640 480 85 24, mode_entry 640 480 75 24,
     mode_entry 640 480 73 24, mode_entry 640 480 60 24]"
  unfolding dlo_mode_data_def dlo_mode_init_def DLO_MODE_DATA_NUM_def
  by (simp add: eval_nat_numeral init_mode_Cons_0 init_mode_Cons_Suc)

lemma length_dlo_mode_data: "length dlo_mode_data = DLO_MODE_DATA_NUM"
  by (simp add: dlo_mode_data_eq DLO_MODE_DATA_NUM_def)

section \<open>The default supported list\<close>

lemma fold_update_upt:
  "n \<le> length s \<Longrightarrow> fold (\<lambda>i s. s[i := f i]) [0..<n] s = map f [0..<n] @ drop n s"
proof (induction n)
  case 0
  show ?case by simp
next
  case (Suc n)
  then have "n < length s" by simp
  then have "(map f [0..<n] @ drop n s)[n := f n] = map f [0..<n] @ f n # drop (Suc n) s"
    by (simp add: list_update_append Cons_nth_drop_Suc [symmetric])
  with Suc show ?case by simp
qed

lemma supported_use_default_modes:
  "length (supported dev) = DLO_MODE_DATA_NUM \<Longrightarrow>
   supported (use_default_modes dev) = map of_nat [0..<DLO_MODE_DATA_NUM]"
  by (simp add: use_default_modes_def fold_update_upt)

lemma supported_example_device:
  "supported example_device =
     [0, 1, 2, 3, 4, 5, 6, 7, 8, 9, 10, 11, 12, 13, 14, 15, 16, 17, 18, 19, 20,
      21, 22, 23, 24, 25, 26, 27, 28, 29, 30, 31, 32, 33, 34]"
  unfolding example_device_def
  by (subst supported_use_default_modes) (simp_all add: blank_device_def DLO_MODE_DATA_NUM_def upt_rec)

section \<open>Lookup and catalogue access\<close>

lemma get_mode_number_loop_Cons:
  "get_mode_number_loop (num # rest) w h r b =
     (if num = DLO_INVALID_MODE then Some DLO_INVALID_MODE
      else if \<not> unat num < DLO_MODE_DATA_NUM then None
      else if mode_matches num w h r b then Some num
      else get_mode_number_loop rest w h r b)"
  by (auto simp: mode_matches_def)

lemma get_mode_number_loop_find:
  "list_all (\<lambda>n. unat n < DLO_MODE_DATA_NUM) (takeWhile (\<lambda>n. n \<noteq> DLO_INVALID_MODE) xs) \<Longrightarrow>
   get_mode_number_loop xs w h r b =
     Some (case find (\<lambda>n. mode_matches n w h r b) (takeWhile (\<lambda>n. n \<noteq> DLO_INVALID_MODE) xs) of
             Some n \<Rightarrow> n | None \<Rightarrow> DLO_INVALID_MODE)"
proof (induction xs)
  case Nil
  show ?case by simp
next
  case (Cons num rest)
  show ?case
  proof (cases "num = DLO_INVALID_MODE")
    case True
    then show ?thesis by simp
  next
    case False
    with Cons.prems have ok: "unat num < DLO_MODE_DATA_NUM"
      and rest: "list_all (\<lambda>n. unat n < DLO_MODE_DATA_NUM)
                   (takeWhile (\<lambda>n. n \<noteq> DLO_INVALID_MODE) rest)"
      by simp_all
    from Cons.IH [OF rest] False ok show ?thesis
      by (simp only: get_mode_number_loop_Cons takeWhile.simps find.simps if_True if_False
          not_True_eq_False not_False_eq_True option.case split: if_splits) simp
  qed
qed

text \<open>
  C2. For every device and request, \<open>dlo_mode_lookup\<close> returns
  \<open>DLO_INVALID_MODE\<close> at once when \<open>bpp\<close> is not 24. Otherwise, on a device whose
  supported entries before the first sentinel are catalogue indices, it returns what
  the specification's walk returns: the first entry before the sentinel (within
  \<open>DLO_MODE_DATA_NUM\<close> entries) whose catalogue entry matches, and
  \<open>DLO_INVALID_MODE\<close> when there is none.
\<close>

theorem dlo_mode_lookup_refines_spec:
  "(b \<noteq> 24 \<longrightarrow> dlo_mode_lookup dev w h r b = Some DLO_INVALID_MODE) \<and>
   (list_all (\<lambda>n. unat n < DLO_MODE_DATA_NUM) (before_sentinel dev) \<longrightarrow>
      dlo_mode_lookup dev w h r b = Some (spec_lookup dev w h r b))"
  by (simp add: dlo_mode_lookup_def get_mode_number_def spec_lookup_def before_sentinel_def
      get_mode_number_loop_find)

lemma before_sentinel_example_device:
  "before_sentinel example_device = supported example_device"
  by (simp add: before_sentinel_def supported_example_device DLO_MODE_DATA_NUM_def
      DLO_INVALID_MODE_def)

theorem dlo_mode_lookup_witness:
  "(16 :: 8 word) \<noteq> 24 \<and>
   dlo_mode_lookup example_device 1024 768 60 16 = Some DLO_INVALID_MODE \<and>
   list_all (\<lambda>n. unat n < DLO_MODE_DATA_NUM) (before_sentinel example_device) \<and>
   dlo_mode_lookup example_device 1024 768 60 24 = Some 21 \<and>
   dlo_mode_lookup example_device 1024 768 0 24 = Some 18 \<and>
   dlo_mode_lookup example_device 1024 700 0 24 = Some DLO_INVALID_MODE"
proof -
  have ne: "(16 :: 8 word) \<noteq> 24" by simp
  have ok: "list_all (\<lambda>n. unat n < DLO_MODE_DATA_NUM) (before_sentinel example_device)"
    by (simp add: before_sentinel_example_device supported_example_device DLO_MODE_DATA_NUM_def)
  have a: "dlo_mode_lookup example_device 1024 768 60 16 = Some DLO_INVALID_MODE"
    using dlo_mode_lookup_refines_spec [of 16 example_device 1024 768 60] ne by blast
  have s1: "spec_lookup example_device 1024 768 60 24 = 21"
    by (simp add: spec_lookup_def before_sentinel_example_device supported_example_device
        mode_matches_def dlo_mode_data_eq mode_entry_def)
  have s2: "spec_lookup example_device 1024 768 0 24 = 18"
    by (simp add: spec_lookup_def before_sentinel_example_device supported_example_device
        mode_matches_def dlo_mode_data_eq mode_entry_def)
  have s3: "spec_lookup example_device 1024 700 0 24 = DLO_INVALID_MODE"
    by (simp add: spec_lookup_def before_sentinel_example_device supported_example_device
        mode_matches_def dlo_mode_data_eq mode_entry_def)
  have b: "dlo_mode_lookup example_device 1024 768 60 24 = Some 21"
    using dlo_mode_lookup_refines_spec [of 24 example_device 1024 768 60] ok s1 by simp
  have c: "dlo_mode_lookup example_device 1024 768 0 24 = Some 18"
    using dlo_mode_lookup_refines_spec [of 24 example_device 1024 768 0] ok s2 by simp
  have d: "dlo_mode_lookup example_device 1024 700 0 24 = Some DLO_INVALID_MODE"
    using dlo_mode_lookup_refines_spec [of 24 example_device 1024 700 0] ok s3 by simp
  from ne ok a b c d show ?thesis by blast
qed

text \<open>
  C10. \<open>dlo_mode_from_number\<close> returns NULL exactly for the mode numbers from
  \<open>DLO_MODE_DATA_NUM\<close> (35, the length of the catalogue) upwards; below, it
  returns a mode record with the width, height, bpp and refresh of that catalogue
  entry and base 0.
\<close>

theorem dlo_mode_from_number_spec:
  "DLO_MODE_DATA_NUM = 35 \<and> length dlo_mode_data = DLO_MODE_DATA_NUM \<and>
   (dlo_mode_from_number num = None \<longleftrightarrow> DLO_MODE_DATA_NUM \<le> unat num) \<and>
   (unat num < DLO_MODE_DATA_NUM \<longrightarrow>
      dlo_mode_from_number num =
        Some \<lparr> view = \<lparr> width = md_width (dlo_mode_data ! unat num),
                        height = md_height (dlo_mode_data ! unat num),
                        bpp = md_bpp (dlo_mode_data ! unat num),
                        base = 0 \<rparr>,
               refresh = md_refresh (dlo_mode_data ! unat num) \<rparr>)"
  by (simp add: dlo_mode_from_number_def mode_of_data_def length_dlo_mode_data)
     (simp add: DLO_MODE_DATA_NUM_def)

theorem dlo_mode_from_number_witness:
  "unat (21 :: 32 word) < DLO_MODE_DATA_NUM \<and>
   dlo_mode_from_number 21 =
     Some \<lparr> view = \<lparr> width = 1024, height = 768, bpp = 24, base = 0 \<rparr>, refresh = 60 \<rparr> \<and>
   dlo_mode_from_number 35 = None \<and>
   dlo_mode_from_number 34 \<noteq> None"
proof -
  have lt: "unat (21 :: 32 word) < DLO_MODE_DATA_NUM" by (simp add: DLO_MODE_DATA_NUM_def)
  have e: "dlo_mode_data ! 21 = mode_entry 1024 768 60 24"
    by (simp add: dlo_mode_data_eq)
  have a: "dlo_mode_from_number 21 =
     Some \<lparr> view = \<lparr> width = 1024, height = 768, bpp = 24, base = 0 \<rparr>, refresh = 60 \<rparr>"
    using dlo_mode_from_number_spec [of 21] lt by (simp add: e mode_entry_def)
  have b: "dlo_mode_from_number 35 = None"
    using dlo_mode_from_number_spec [of 35] by (simp add: DLO_MODE_DATA_NUM_def)
  have c: "dlo_mode_from_number 34 \<noteq> None"
    using dlo_mode_from_number_spec [of 34] by (simp add: DLO_MODE_DATA_NUM_def)
  from lt a b c show ?thesis by blast
qed

section \<open>Staging\<close>

lemma put_byte_staged:
  "bufptr dev < length (buffer dev) \<Longrightarrow> put_byte dev c = Some (staged dev [c])"
  by (simp add: put_byte_def staged_def upd_conv_take_nth_drop)

lemma buffer_free_less:
  "bufptr dev \<le> length (buffer dev) \<Longrightarrow>
   0 \<le> buffer_free dev \<and> (buffer_free dev < int n \<longleftrightarrow> length (buffer dev) - bufptr dev < n)"
  unfolding buffer_free_def by linarith

lemma staged_staged:
  assumes "bufptr dev + length xs + length ys \<le> length (buffer dev)"
  shows "staged (staged dev xs) ys = staged dev (xs @ ys)"
proof -
  let ?p = "bufptr dev" and ?b = "buffer dev"
  let ?b1 = "take ?p ?b @ xs @ drop (?p + length xs) ?b"
  have lp: "length (take ?p ?b) = ?p" using assms by simp
  have t: "take (?p + length xs) ?b1 = take ?p ?b @ xs"
    using lp by (simp add: take_append)
  have d: "drop (?p + length xs + length ys) ?b1 = drop (?p + length xs + length ys) ?b"
    using lp by (simp add: drop_append add.commute)
  show ?thesis
    unfolding staged_def using t d by (simp add: add.assoc)
qed

lemma vbuf_loop_staged:
  "bufptr dev + n \<le> length (buffer dev) \<Longrightarrow> n \<le> length buf \<Longrightarrow>
   vbuf_loop dev buf n = Some (staged dev (take n buf))"
proof (induction dev buf n rule: vbuf_loop.induct)
  case (1 dev buf)
  show ?case by (simp add: staged_def)
next
  case (2 dev n)
  then show ?case by simp
next
  case (3 dev c cs n)
  from "3.prems" have lt: "bufptr dev < length (buffer dev)" by simp
  have p: "put_byte dev c = Some (staged dev [c])" by (rule put_byte_staged [OF lt])
  have len: "length (buffer (staged dev [c])) = length (buffer dev)"
    using lt by (simp add: staged_def)
  have ptr: "bufptr (staged dev [c]) = bufptr dev + 1" by (simp add: staged_def)
  have "vbuf_loop (staged dev [c]) cs n = Some (staged (staged dev [c]) (take n cs))"
    using "3.prems" by (intro "3.IH" [OF p]) (simp_all add: len ptr)
  moreover have "staged (staged dev [c]) (take n cs) = staged dev ([c] @ take n cs)"
    using "3.prems" by (intro staged_staged) simp
  ultimately show ?case using p by simp
qed

text \<open>
  C9. For every device whose cursor lies within the command buffer: \<open>vbuf\<close> with
  a block of \<open>len\<close> bytes returns \<open>dlo_err_buf_full\<close> and leaves the device as
  it was when fewer than \<open>len\<close> bytes are free; otherwise it returns \<open>dlo_ok\<close>
  and the buffer holds what it held before the cursor, then exactly the \<open>len\<close>
  bytes, then what it held beyond, with the cursor advanced by \<open>len\<close>. \<open>vreg\<close>
  returns \<open>dlo_err_buf_full\<close> with the device unchanged when fewer than 4 bytes are
  free, and otherwise stages exactly \<open>AF 20 reg val\<close> and advances the cursor by 4.
\<close>

theorem staging_spec:
  assumes "bufptr dev \<le> length (buffer dev)"
  shows
    "(length (buffer dev) - bufptr dev < len \<longrightarrow>
        vbuf dev buf len = Some (dlo_err_buf_full, dev)) \<and>
     (\<not> length (buffer dev) - bufptr dev < len \<and> len \<le> length buf \<longrightarrow>
        vbuf dev buf len =
          Some (dlo_ok,
                dev\<lparr> buffer := take (bufptr dev) (buffer dev) @ take len buf
                                 @ drop (bufptr dev + len) (buffer dev),
                     bufptr := bufptr dev + len \<rparr>)) \<and>
     (length (buffer dev) - bufptr dev < 4 \<longrightarrow>
        vreg dev reg val = Some (dlo_err_buf_full, dev)) \<and>
     (\<not> length (buffer dev) - bufptr dev < 4 \<longrightarrow>
        vreg dev reg val =
          Some (dlo_ok,
                dev\<lparr> buffer := take (bufptr dev) (buffer dev) @ [0xAF, 0x20, reg, val]
                                 @ drop (bufptr dev + 4) (buffer dev),
                     bufptr := bufptr dev + 4 \<rparr>))"
proof (intro conjI impI)
  assume "length (buffer dev) - bufptr dev < len"
  with buffer_free_less [OF assms, of len] show "vbuf dev buf len = Some (dlo_err_buf_full, dev)"
    by (simp add: vbuf_def)
next
  assume a: "\<not> length (buffer dev) - bufptr dev < len \<and> len \<le> length buf"
  with assms have fit: "bufptr dev + len \<le> length (buffer dev)" by linarith
  from a buffer_free_less [OF assms, of len]
  have nf: "\<not> (0 \<le> buffer_free dev \<and> buffer_free dev < int len)"
    by simp
  from vbuf_loop_staged [OF fit] a nf
  show "vbuf dev buf len =
          Some (dlo_ok,
                dev\<lparr> buffer := take (bufptr dev) (buffer dev) @ take len buf
                                 @ drop (bufptr dev + len) (buffer dev),
                     bufptr := bufptr dev + len \<rparr>)"
    by (simp add: vbuf_def staged_def min_def)
next
  assume "length (buffer dev) - bufptr dev < 4"
  with buffer_free_less [OF assms, of 4] show "vreg dev reg val = Some (dlo_err_buf_full, dev)"
    by (simp add: vreg_def)
next
  assume a: "\<not> length (buffer dev) - bufptr dev < 4"
  with assms have fit: "bufptr dev + 4 \<le> length (buffer dev)" by linarith
  from a buffer_free_less [OF assms, of 4] have nf: "\<not> buffer_free dev < 4" by simp
  have p1: "put_byte dev 0xAF = Some (staged dev [0xAF])"
    using fit by (intro put_byte_staged) simp
  have p2: "put_byte (staged dev [0xAF]) 0x20 = Some (staged dev [0xAF, 0x20])"
    using fit by (subst put_byte_staged) (simp_all add: staged_def min_def)
  have p3: "put_byte (staged dev [0xAF, 0x20]) reg = Some (staged dev [0xAF, 0x20, reg])"
    using fit by (subst put_byte_staged) (simp_all add: staged_def min_def)
  have p4: "put_byte (staged dev [0xAF, 0x20, reg]) val = Some (staged dev [0xAF, 0x20, reg, val])"
    using fit by (subst put_byte_staged) (simp_all add: staged_def min_def)
  show "vreg dev reg val =
          Some (dlo_ok,
                dev\<lparr> buffer := take (bufptr dev) (buffer dev) @ [0xAF, 0x20, reg, val]
                                 @ drop (bufptr dev + 4) (buffer dev),
                     bufptr := bufptr dev + 4 \<rparr>)"
    using nf by (simp add: vreg_def p1 p2 p3 p4) (simp add: staged_def numeral_eq_Suc)
qed

theorem staging_witness:
  "bufptr small_buffer_device \<le> length (buffer small_buffer_device) \<and>
   length (buffer small_buffer_device) - bufptr small_buffer_device < 4 \<and>
   vreg small_buffer_device 0x20 0x00 = Some (dlo_err_buf_full, small_buffer_device) \<and>
   vbuf small_buffer_device WRITE_VIDREG_LOCK 4 = Some (dlo_err_buf_full, small_buffer_device) \<and>
   bufptr example_device \<le> length (buffer example_device) \<and>
   \<not> length (buffer example_device) - bufptr example_device < 4 \<and>
   (4 :: nat) \<le> length WRITE_VIDREG_LOCK \<and>
   map_option (\<lambda>(rc, d). (rc, bufptr d, take 4 (buffer d))) (vreg example_device 0x20 0x12)
     = Some (dlo_ok, 4, [0xAF, 0x20, 0x20, 0x12]) \<and>
   map_option (\<lambda>(rc, d). (rc, bufptr d, take 4 (buffer d))) (vbuf example_device WRITE_VIDREG_LOCK 4)
     = Some (dlo_ok, 4, [0xAF, 0x20, 0xFF, 0x00])"
proof -
  have s0: "bufptr small_buffer_device = 0" "length (buffer small_buffer_device) = 3"
    by (simp_all add: small_buffer_device_def example_device_def blank_device_def use_default_modes_def)
  have e0: "bufptr example_device = 0" "length (buffer example_device) = 64"
    by (simp_all add: example_device_def blank_device_def use_default_modes_def)
  have sw: "bufptr small_buffer_device \<le> length (buffer small_buffer_device)"
    by (simp add: s0)
  have ew: "bufptr example_device \<le> length (buffer example_device)"
    by (simp add: e0)
  have l: "(4 :: nat) \<le> length WRITE_VIDREG_LOCK" by (simp add: WRITE_VIDREG_LOCK_def)
  have a: "vreg small_buffer_device 0x20 0x00 = Some (dlo_err_buf_full, small_buffer_device)"
    using staging_spec [OF sw, of 4 WRITE_VIDREG_LOCK "0x20" "0x00"] by (simp add: s0)
  have b: "vbuf small_buffer_device WRITE_VIDREG_LOCK 4 = Some (dlo_err_buf_full, small_buffer_device)"
    using staging_spec [OF sw, of 4 WRITE_VIDREG_LOCK "0x20" "0x00"] by (simp add: s0)
  have c: "map_option (\<lambda>(rc, d). (rc, bufptr d, take 4 (buffer d))) (vreg example_device 0x20 0x12)
     = Some (dlo_ok, 4, [0xAF, 0x20, 0x20, 0x12])"
    using staging_spec [OF ew, of 4 WRITE_VIDREG_LOCK "0x20" "0x12"] by (simp add: e0)
  have d: "map_option (\<lambda>(rc, d). (rc, bufptr d, take 4 (buffer d))) (vbuf example_device WRITE_VIDREG_LOCK 4)
     = Some (dlo_ok, 4, [0xAF, 0x20, 0xFF, 0x00])"
    using staging_spec [OF ew, of 4 WRITE_VIDREG_LOCK "0x20" "0x12"] l
    by (simp add: e0 WRITE_VIDREG_LOCK_def)
  from sw ew l a b c d show ?thesis by (simp add: s0 e0)
qed

section \<open>Mode change\<close>

lemma dlo_mode_change_resolved:
  "dlo_mode_change dl usb dev desc mode_num =
     (case resolved_mode dev desc mode_num of
        None \<Rightarrow> None
      | Some m \<Rightarrow> mode_select dl usb dev desc m)"
  by (simp add: dlo_mode_change_def resolved_mode_def)

lemma put_byte_mode_state:
  "put_byte dev c = Some d \<Longrightarrow> mode_state d = mode_state dev"
  by (auto simp: put_byte_def mode_state_def split: if_splits)

lemma vbuf_loop_mode_state:
  "vbuf_loop dev buf n = Some d \<Longrightarrow> mode_state d = mode_state dev"
proof (induction dev buf n rule: vbuf_loop.induct)
  case (1 dev buf)
  then show ?case by simp
next
  case (2 dev n)
  then show ?case by simp
next
  case (3 dev c cs n)
  then show ?case
    by (auto split: option.splits dest: put_byte_mode_state)
qed

lemma vbuf_mode_state:
  "vbuf dev buf n = Some (rc, d) \<Longrightarrow>
   mode_state d = mode_state dev \<and> (rc = dlo_ok \<or> rc = dlo_err_buf_full)"
  by (auto simp: vbuf_def split: if_splits option.splits dest: vbuf_loop_mode_state)

lemma vreg_mode_state:
  "vreg dev reg val = Some (rc, d) \<Longrightarrow>
   mode_state d = mode_state dev \<and> (rc = dlo_ok \<or> rc = dlo_err_buf_full)"
  by (auto simp: vreg_def split: if_splits option.splits dest!: put_byte_mode_state)

lemma dlo_usb_write_mode_state:
  "dlo_usb_write usb dev = (rc, d) \<Longrightarrow>
   mode_state d = mode_state dev \<and> rc = usb (wire d)"
  by (auto simp: dlo_usb_write_def mode_state_def Let_def)

lemma dlo_usb_chan_sel_mode_state:
  "dlo_usb_chan_sel usb dev blob = (rc, d) \<Longrightarrow>
   mode_state d = mode_state dev \<and> rc = usb (wire d)"
  by (auto simp: dlo_usb_chan_sel_def mode_state_def Let_def)

lemma dlo_usb_write_buf_mode_state:
  "dlo_usb_write_buf usb dev blob = (rc, d) \<Longrightarrow>
   mode_state d = mode_state dev \<and> rc = usb (wire d)"
  by (auto simp: dlo_usb_write_buf_def mode_state_def Let_def)

lemma ERR_Some:
  "ERR r rest = Some (rc, d') \<longleftrightarrow>
     (r = Some (rc, d') \<and> rc \<noteq> dlo_ok) \<or> (\<exists>d. r = Some (dlo_ok, d) \<and> rest d = Some (rc, d'))"
  by (auto simp: ERR_def split: option.splits)

lemma ERR_keeps:
  assumes "ERR r rest = Some (rc, d')"
    and "\<And>rc d. r = Some (rc, d) \<Longrightarrow> mode_state d = ms \<and> rc \<noteq> dlo_warn_dl160_mode"
    and "\<And>d. mode_state d = ms \<Longrightarrow> rest d = Some (rc, d') \<Longrightarrow>
           mode_state d' = ms \<and> rc \<noteq> dlo_warn_dl160_mode"
  shows "mode_state d' = ms \<and> rc \<noteq> dlo_warn_dl160_mode"
  using assms unfolding ERR_Some by blast

lemma vbuf_keeps:
  "vbuf dev buf n = Some (rc, d) \<Longrightarrow> mode_state dev = ms \<Longrightarrow>
   mode_state d = ms \<and> rc \<noteq> dlo_warn_dl160_mode"
  by (auto dest: vbuf_mode_state)

lemma vreg_keeps:
  "vreg dev reg val = Some (rc, d) \<Longrightarrow> mode_state dev = ms \<Longrightarrow>
   mode_state d = ms \<and> rc \<noteq> dlo_warn_dl160_mode"
  by (auto dest: vreg_mode_state)

lemma dlo_usb_write_keeps:
  "Some (dlo_usb_write usb dev) = Some (rc, d) \<Longrightarrow> \<forall>w. usb w \<noteq> dlo_warn_dl160_mode \<Longrightarrow>
   mode_state dev = ms \<Longrightarrow> mode_state d = ms \<and> rc \<noteq> dlo_warn_dl160_mode"
  by (auto simp: dlo_usb_write_def mode_state_def Let_def)

lemma dlo_usb_chan_sel_keeps:
  "Some (dlo_usb_chan_sel usb dev blob) = Some (rc, d) \<Longrightarrow> \<forall>w. usb w \<noteq> dlo_warn_dl160_mode \<Longrightarrow>
   mode_state dev = ms \<Longrightarrow> mode_state d = ms \<and> rc \<noteq> dlo_warn_dl160_mode"
  by (auto simp: dlo_usb_chan_sel_def mode_state_def Let_def)

lemma dlo_usb_write_buf_keeps:
  "Some (dlo_usb_write_buf usb dev blob) = Some (rc, d) \<Longrightarrow> \<forall>w. usb w \<noteq> dlo_warn_dl160_mode \<Longrightarrow>
   mode_state dev = ms \<Longrightarrow> mode_state d = ms \<and> rc \<noteq> dlo_warn_dl160_mode"
  by (auto simp: dlo_usb_write_buf_def mode_state_def Let_def)

lemma set_base_mode_state:
  assumes run: "set_base usb dev b b8 = Some (rc, d)"
    and usb: "\<forall>w. usb w \<noteq> dlo_warn_dl160_mode"
  shows "mode_state d = mode_state dev \<and> rc \<noteq> dlo_warn_dl160_mode"
  using run unfolding set_base_def
  apply (elim ERR_keeps)
                   apply (erule vbuf_keeps, rule refl)
                  apply (erule (1) vreg_keeps)
                 apply (erule (1) vreg_keeps)
                apply (erule (1) vreg_keeps)
               apply (erule (1) vreg_keeps)
              apply (erule (1) vreg_keeps)
             apply (erule (1) vreg_keeps)
            apply (erule (1) vbuf_keeps)
           apply (erule dlo_usb_write_keeps [OF _ usb], assumption)
  apply simp
  done

lemma mode_program_keeps:
  assumes run: "(if c then
                   ERR (Some (dlo_usb_chan_sel usb d3 en)) (\<lambda>e1.
                   ERR (Some (dlo_usb_write_buf usb e1 dat)) (\<lambda>e2.
                   ERR (Some (dlo_usb_chan_sel usb e2 DLO_MODE_POSTAMBLE)) (\<lambda>e3.
                   Some (dlo_ok, e3))))
                 else Some (dlo_ok, d3)) = Some (rc, d4)"
    and usb: "\<forall>w. usb w \<noteq> dlo_warn_dl160_mode"
  shows "mode_state d4 = mode_state d3 \<and> rc \<noteq> dlo_warn_dl160_mode"
proof (cases c)
  case False
  with run show ?thesis by simp
next
  case True
  with run have "ERR (Some (dlo_usb_chan_sel usb d3 en)) (\<lambda>e1.
                   ERR (Some (dlo_usb_write_buf usb e1 dat)) (\<lambda>e2.
                   ERR (Some (dlo_usb_chan_sel usb e2 DLO_MODE_POSTAMBLE)) (\<lambda>e3.
                   Some (dlo_ok, e3)))) = Some (rc, d4)"
    by simp
  then show ?thesis
    apply (elim ERR_keeps)
         apply (erule dlo_usb_chan_sel_keeps [OF _ usb], rule refl)
        apply (erule dlo_usb_write_buf_keeps [OF _ usb], assumption)
       apply (erule dlo_usb_chan_sel_keeps [OF _ usb], assumption)
    apply simp
    done
qed

lemma mode_select_completes:
  assumes sel: "mode_select dl usb dev desc m = Some (rc, dev')"
    and fin: "rc = dlo_ok \<or> rc = dlo_warn_dl160_mode"
    and usb: "\<forall>w. usb w \<noteq> dlo_warn_dl160_mode"
  shows "unat m < DLO_MODE_DATA_NUM \<and>
         mode dev' = desc\<lparr> refresh := md_refresh (dlo_mode_data ! unat m) \<rparr> \<and>
         low_blank dev' = md_low_blank (dlo_mode_data ! unat m) \<and>
         base8 dev' = base (view desc)
                      + BYTES_PER_16BPP * ucast (width (view desc)) * ucast (height (view desc)) \<and>
         rc = (if m < dl then dlo_warn_dl160_mode else dlo_ok)"
proof -
  from sel fin have valid: "unat m < DLO_MODE_DATA_NUM" "m \<noteq> DLO_INVALID_MODE"
    and even: "base (view desc) AND 1 = 0"
    by (auto simp: mode_select_def split: if_splits)
  obtain rc1 d1 where w1: "dlo_usb_write usb dev = (rc1, d1)"
    by (cases "dlo_usb_write usb dev")
  from sel fin valid even w1 have rc1: "rc1 = dlo_ok"
    by (auto simp: mode_select_def split: if_splits)
  define d2 where "d2 =
    d1\<lparr> mode := (mode d1)\<lparr> view := (view (mode d1))\<lparr> base := base (view desc) \<rparr> \<rparr>,
        base8 := base (view desc)
                 + BYTES_PER_16BPP * ucast (width (view desc)) * ucast (height (view desc)) \<rparr>"
  define prog :: "dlo_device_t \<Rightarrow> (dlo_retcode_t \<times> dlo_device_t) option" where "prog = (\<lambda>d3.
    if width (view desc) \<noteq> width (view (mode d3)) \<or>
       height (view desc) \<noteq> height (view (mode d3)) \<or>
       bpp (view desc) \<noteq> bpp (view (mode d3))
    then
      ERR (Some (dlo_usb_chan_sel usb d3 (md_mode_en (dlo_mode_data ! unat m)))) (\<lambda>e1.
      ERR (Some (dlo_usb_write_buf usb e1 (md_data (dlo_mode_data ! unat m)))) (\<lambda>e2.
      ERR (Some (dlo_usb_chan_sel usb e2 DLO_MODE_POSTAMBLE)) (\<lambda>e3.
      Some (dlo_ok, e3))))
    else Some (dlo_ok, d3))"
  define upd :: "dlo_device_t \<Rightarrow> dlo_device_t" where "upd = (\<lambda>d4.
    d4\<lparr> mode := desc\<lparr> refresh := md_refresh (dlo_mode_data ! unat m) \<rparr>,
        low_blank := md_low_blank (dlo_mode_data ! unat m) \<rparr>)"
  define finish where "finish = (\<lambda>d4.
    ERR (Some (dlo_usb_write usb (upd d4))) (\<lambda>d6.
    Some (if m < dl then dlo_warn_dl160_mode else dlo_ok, d6)))"
  from sel valid even w1 rc1
  have chain: "ERR (set_base usb d2 (base (view (mode d2))) (base8 d2))
                 (\<lambda>d3. ERR (prog d3) finish) = Some (rc, dev')"
    by (simp add: mode_select_def d2_def prog_def finish_def upd_def Let_def)
  have b2: "base8 d2 = base (view desc)
              + BYTES_PER_16BPP * ucast (width (view desc)) * ucast (height (view desc))"
    by (simp add: d2_def)
  from chain obtain d3 where sb: "set_base usb d2 (base (view (mode d2))) (base8 d2) = Some (dlo_ok, d3)"
    and rest3: "ERR (prog d3) finish = Some (rc, dev')"
    using fin set_base_mode_state [OF _ usb] unfolding ERR_Some by blast
  from set_base_mode_state [OF sb usb] have m3: "mode_state d3 = mode_state d2" by simp
  from rest3 obtain d4 where pr: "prog d3 = Some (dlo_ok, d4)"
    and rest4: "finish d4 = Some (rc, dev')"
    using fin mode_program_keeps [OF _ usb] unfolding ERR_Some prog_def by blast
  from mode_program_keeps [OF pr [unfolded prog_def] usb]
  have m4: "mode_state d4 = mode_state d3" by simp
  obtain rc6 d6 where w6: "dlo_usb_write usb (upd d4) = (rc6, d6)"
    by (cases "dlo_usb_write usb (upd d4)")
  from dlo_usb_write_mode_state [OF w6] usb
  have m6: "mode_state d6 = mode_state (upd d4)" and r6: "rc6 \<noteq> dlo_warn_dl160_mode"
    by auto
  from rest4 w6 fin r6 have out: "rc = (if m < dl then dlo_warn_dl160_mode else dlo_ok)" "dev' = d6"
    unfolding finish_def ERR_Some by auto
  from m3 m4 b2 have "base8 d4 = base (view desc)
              + BYTES_PER_16BPP * ucast (width (view desc)) * ucast (height (view desc))"
    by (simp add: mode_state_def)
  with m6 out valid show ?thesis
    by (simp add: mode_state_def upd_def)
qed

lemma unat_ucast_16_32: "unat (ucast (w :: 16 word) :: 32 word) = unat w"
proof -
  have "unat w < 2 ^ LENGTH(16)" by (rule unsigned_less)
  then have "unat w < 2 ^ 32" by simp
  then show ?thesis by (simp add: unsigned_ucast_eq take_bit_nat_eq_self)
qed

lemma unat_base8:
  fixes b :: "32 word" and w h :: "16 word"
  assumes "unat b + 2 * unat w * unat h < 2 ^ 32"
  shows "unat (b + BYTES_PER_16BPP * ucast w * ucast h) = unat b + 2 * unat w * unat h"
proof -
  define P where "P = unat w * unat h"
  from assms have s: "unat b + 2 * P < 2 ^ 32" by (simp add: P_def mult.assoc)
  then have t: "2 * P < 2 ^ 32" by simp
  have "unat w < 2 ^ LENGTH(16)" by (rule unsigned_less)
  then have l1: "unat (2 :: 32 word) * unat (ucast w :: 32 word) < 2 ^ LENGTH(32)"
    by (simp add: unat_ucast_16_32)
  have m1: "unat (2 * (ucast w :: 32 word)) = 2 * unat w"
    using l1 [unfolded unat_mult_lem] by (simp add: unat_ucast_16_32)
  have e2: "unat (2 * (ucast w :: 32 word)) * unat (ucast h :: 32 word) = 2 * P"
    unfolding m1 unat_ucast_16_32 P_def by (simp add: mult.assoc)
  have l2: "unat (2 * (ucast w :: 32 word)) * unat (ucast h :: 32 word) < 2 ^ LENGTH(32)"
    unfolding e2 using t by simp
  have m2: "unat (2 * (ucast w :: 32 word) * ucast h) = 2 * P"
    using l2 [unfolded unat_mult_lem] e2 by simp
  have l3: "unat b + unat (2 * (ucast w :: 32 word) * ucast h) < 2 ^ LENGTH(32)"
    unfolding m2 using s by simp
  have "unat (b + 2 * (ucast w :: 32 word) * ucast h) = unat b + 2 * P"
    using l3 [unfolded unat_add_lem] m2 by simp
  then show ?thesis
    by (simp add: BYTES_PER_16BPP_def P_def mult.assoc)
qed

lemma ERR_ok: "ERR (Some (dlo_ok, d)) rest = rest d"
  by (simp add: ERR_def)

lemma staged_room:
  assumes "bufptr dev + (n + length xs) \<le> length (buffer dev)"
  shows "bufptr (staged dev xs) + n \<le> length (buffer (staged dev xs))"
proof -
  have "length (take (bufptr dev) (buffer dev)) = bufptr dev" using assms by simp
  moreover have "length (drop (bufptr dev + length xs) (buffer dev))
                   = length (buffer dev) - (bufptr dev + length xs)" by simp
  ultimately have "length (buffer (staged dev xs)) = length (buffer dev)"
    using assms unfolding staged_def by simp
  then show ?thesis using assms by (simp add: staged_def)
qed

lemma vbuf_room:
  assumes "bufptr dev + (n + k) \<le> length (buffer dev)" and "k \<le> length buf"
  shows "\<exists>d. vbuf dev buf k = Some (dlo_ok, d) \<and> bufptr d + n \<le> length (buffer d)"
proof -
  from assms have fit: "bufptr dev + k \<le> length (buffer dev)" by simp
  then have le: "bufptr dev \<le> length (buffer dev)" by simp
  from fit buffer_free_less [OF le, of k]
  have nf: "\<not> (0 \<le> buffer_free dev \<and> buffer_free dev < int k)" by simp
  from vbuf_loop_staged [OF fit assms(2)] nf
  have "vbuf dev buf k = Some (dlo_ok, staged dev (take k buf))"
    by (simp add: vbuf_def)
  moreover have "bufptr (staged dev (take k buf)) + n \<le> length (buffer (staged dev (take k buf)))"
    using assms by (intro staged_room) simp
  ultimately show ?thesis by blast
qed

lemma vreg_room:
  assumes "bufptr dev + (n + 4) \<le> length (buffer dev)"
  shows "\<exists>d. vreg dev reg val = Some (dlo_ok, d) \<and> bufptr d + n \<le> length (buffer d)"
proof -
  from assms have fit: "bufptr dev + 4 \<le> length (buffer dev)" by simp
  then have le: "bufptr dev \<le> length (buffer dev)" by simp
  from fit buffer_free_less [OF le, of 4] have nf: "\<not> buffer_free dev < 4" by simp
  have p1: "put_byte dev 0xAF = Some (staged dev [0xAF])"
    using fit by (intro put_byte_staged) simp
  have p2: "put_byte (staged dev [0xAF]) 0x20 = Some (staged dev [0xAF, 0x20])"
    using fit by (subst put_byte_staged) (simp_all add: staged_def min_def)
  have p3: "put_byte (staged dev [0xAF, 0x20]) reg = Some (staged dev [0xAF, 0x20, reg])"
    using fit by (subst put_byte_staged) (simp_all add: staged_def min_def)
  have p4: "put_byte (staged dev [0xAF, 0x20, reg]) val = Some (staged dev [0xAF, 0x20, reg, val])"
    using fit by (subst put_byte_staged) (simp_all add: staged_def min_def)
  have "vreg dev reg val = Some (dlo_ok, staged dev [0xAF, 0x20, reg, val])"
    using nf by (simp add: vreg_def p1 p2 p3 p4)
  moreover have "bufptr (staged dev [0xAF, 0x20, reg, val]) + n
                   \<le> length (buffer (staged dev [0xAF, 0x20, reg, val]))"
    using assms by (intro staged_room) simp
  ultimately show ?thesis by blast
qed

lemma set_base_runs:
  assumes "bufptr dev + 34 \<le> length (buffer dev)"
  shows "\<exists>d. set_base usb_ok dev b b8 = Some (dlo_ok, d)"
proof -
  have n1: "DSIZEOF WRITE_VIDREG_LOCK = 4" and n8: "DSIZEOF WRITE_VIDREG_UNLOCK = 6"
    by (simp_all add: DSIZEOF_def WRITE_VIDREG_LOCK_def WRITE_VIDREG_UNLOCK_def)
  have "\<exists>d. vbuf dev WRITE_VIDREG_LOCK 4 = Some (dlo_ok, d) \<and> bufptr d + 30 \<le> length (buffer d)"
    using assms by (intro vbuf_room) (simp_all add: WRITE_VIDREG_LOCK_def)
  then obtain d1 where s1: "vbuf dev WRITE_VIDREG_LOCK 4 = Some (dlo_ok, d1)"
    and r1: "bufptr d1 + (26 + 4) \<le> length (buffer d1)"
    by auto
  from vreg_room [OF r1] obtain d2 where s2: "vreg d1 0x20 (ucast (drop_bit 16 b)) = Some (dlo_ok, d2)"
    and r2: "bufptr d2 + (22 + 4) \<le> length (buffer d2)" by fastforce
  from vreg_room [OF r2] obtain d3 where s3: "vreg d2 0x21 (ucast (drop_bit 8 b)) = Some (dlo_ok, d3)"
    and r3: "bufptr d3 + (18 + 4) \<le> length (buffer d3)" by fastforce
  from vreg_room [OF r3] obtain d4 where s4: "vreg d3 0x22 (ucast b) = Some (dlo_ok, d4)"
    and r4: "bufptr d4 + (14 + 4) \<le> length (buffer d4)" by fastforce
  from vreg_room [OF r4] obtain d5 where s5: "vreg d4 0x26 (ucast (drop_bit 16 b8)) = Some (dlo_ok, d5)"
    and r5: "bufptr d5 + (10 + 4) \<le> length (buffer d5)" by fastforce
  from vreg_room [OF r5] obtain d6 where s6: "vreg d5 0x27 (ucast (drop_bit 8 b8)) = Some (dlo_ok, d6)"
    and r6: "bufptr d6 + (6 + 4) \<le> length (buffer d6)" by fastforce
  from vreg_room [OF r6] obtain d7 where s7: "vreg d6 0x28 (ucast b8) = Some (dlo_ok, d7)"
    and r7: "bufptr d7 + (0 + 6) \<le> length (buffer d7)" by fastforce
  have "\<exists>d. vbuf d7 WRITE_VIDREG_UNLOCK 6 = Some (dlo_ok, d) \<and> bufptr d + 0 \<le> length (buffer d)"
    using r7 by (intro vbuf_room) (simp_all add: WRITE_VIDREG_UNLOCK_def)
  then obtain d8 where s8: "vbuf d7 WRITE_VIDREG_UNLOCK 6 = Some (dlo_ok, d8)"
    by auto
  show ?thesis
    unfolding set_base_def n1 n8 s1 s2 s3 s4 s5 s6 s7 s8 ERR_ok
    by (simp add: ERR_def dlo_usb_write_def usb_ok_def Let_def)
qed

lemma mode_program_runs:
  "\<exists>d4. (if c then
            ERR (Some (dlo_usb_chan_sel usb_ok d3 en)) (\<lambda>e1.
            ERR (Some (dlo_usb_write_buf usb_ok e1 dat)) (\<lambda>e2.
            ERR (Some (dlo_usb_chan_sel usb_ok e2 DLO_MODE_POSTAMBLE)) (\<lambda>e3.
            Some (dlo_ok, e3))))
          else Some (dlo_ok, d3)) = Some (dlo_ok, d4)"
  by (simp add: ERR_def dlo_usb_chan_sel_def dlo_usb_write_buf_def usb_ok_def Let_def)

lemma mode_select_runs:
  assumes "unat m < DLO_MODE_DATA_NUM" and "m \<noteq> DLO_INVALID_MODE"
    and "base (view desc) AND 1 = 0" and "34 \<le> length (buffer dev)"
  shows "\<exists>d. mode_select dl usb_ok dev desc m
                = Some (if m < dl then dlo_warn_dl160_mode else dlo_ok, d)"
proof -
  define d1 where "d1 = snd (dlo_usb_write usb_ok dev)"
  define d2 where "d2 =
    d1\<lparr> mode := (mode d1)\<lparr> view := (view (mode d1))\<lparr> base := base (view desc) \<rparr> \<rparr>,
        base8 := base (view desc)
                 + BYTES_PER_16BPP * ucast (width (view desc)) * ucast (height (view desc)) \<rparr>"
  define prog :: "dlo_device_t \<Rightarrow> (dlo_retcode_t \<times> dlo_device_t) option" where "prog = (\<lambda>d3.
    if width (view desc) \<noteq> width (view (mode d3)) \<or>
       height (view desc) \<noteq> height (view (mode d3)) \<or>
       bpp (view desc) \<noteq> bpp (view (mode d3))
    then
      ERR (Some (dlo_usb_chan_sel usb_ok d3 (md_mode_en (dlo_mode_data ! unat m)))) (\<lambda>e1.
      ERR (Some (dlo_usb_write_buf usb_ok e1 (md_data (dlo_mode_data ! unat m)))) (\<lambda>e2.
      ERR (Some (dlo_usb_chan_sel usb_ok e2 DLO_MODE_POSTAMBLE)) (\<lambda>e3.
      Some (dlo_ok, e3))))
    else Some (dlo_ok, d3))"
  define upd :: "dlo_device_t \<Rightarrow> dlo_device_t" where "upd = (\<lambda>d4.
    d4\<lparr> mode := desc\<lparr> refresh := md_refresh (dlo_mode_data ! unat m) \<rparr>,
        low_blank := md_low_blank (dlo_mode_data ! unat m) \<rparr>)"
  define finish where "finish = (\<lambda>d4.
    ERR (Some (dlo_usb_write usb_ok (upd d4))) (\<lambda>d6.
    Some (if m < dl then dlo_warn_dl160_mode else dlo_ok, d6)))"
  have w: "dlo_usb_write usb_ok dev = (dlo_ok, d1)"
    by (simp add: d1_def dlo_usb_write_def usb_ok_def Let_def)
  from assms(1-3) w
  have chain: "mode_select dl usb_ok dev desc m =
                 ERR (set_base usb_ok d2 (base (view (mode d2))) (base8 d2))
                   (\<lambda>d3. ERR (prog d3) finish)"
    by (simp add: mode_select_def d2_def prog_def finish_def upd_def Let_def)
  have room: "bufptr d2 + 34 \<le> length (buffer d2)"
    using assms(4) by (simp add: d2_def d1_def dlo_usb_write_def Let_def)
  from set_base_runs [OF room] obtain d3
    where sb: "set_base usb_ok d2 (base (view (mode d2))) (base8 d2) = Some (dlo_ok, d3)"
    by blast
  from mode_program_runs obtain d4 where pr: "prog d3 = Some (dlo_ok, d4)"
    unfolding prog_def by blast
  have fi: "finish d4 = Some (if m < dl then dlo_warn_dl160_mode else dlo_ok,
                             snd (dlo_usb_write usb_ok (upd d4)))"
    by (simp add: finish_def ERR_def dlo_usb_write_def usb_ok_def Let_def)
  show ?thesis
    unfolding chain sb pr ERR_ok fi by blast
qed

text \<open>
  C7. \<open>dlo_mode_change\<close> returns \<open>dlo_err_bad_mode\<close> when the mode number
  passed is \<open>DLO_INVALID_MODE\<close> and the lookup with the desired width, height,
  refresh 0 and the desired bpp finds no entry either; it returns
  \<open>dlo_err_bad_mode\<close> when the desired base address is odd; and when the mode
  number is a catalogue index, the base is even and the first flush fails, it returns
  \<open>DLO_INVALID_MODE\<close> as its return code. In the first two cases the device is
  left as it was.
\<close>

theorem dlo_mode_change_failures:
  "(mode_num = DLO_INVALID_MODE \<and>
    get_mode_number dev (width (view desc)) (height (view desc)) 0 (bpp (view desc))
      = Some DLO_INVALID_MODE \<longrightarrow>
      dlo_mode_change dl usb dev desc mode_num = Some (dlo_err_bad_mode, dev)) \<and>
   (resolved_mode dev desc mode_num \<noteq> None \<and> base (view desc) AND 1 \<noteq> 0 \<longrightarrow>
      dlo_mode_change dl usb dev desc mode_num = Some (dlo_err_bad_mode, dev)) \<and>
   (resolved_mode dev desc mode_num = Some m \<and> unat m < DLO_MODE_DATA_NUM \<and>
    m \<noteq> DLO_INVALID_MODE \<and> base (view desc) AND 1 = 0 \<and>
    fst (dlo_usb_write usb dev) \<noteq> dlo_ok \<longrightarrow>
      dlo_mode_change dl usb dev desc mode_num
        = Some (retcode_of_modenum DLO_INVALID_MODE, snd (dlo_usb_write usb dev)))"
proof (intro conjI impI)
  assume "mode_num = DLO_INVALID_MODE \<and>
    get_mode_number dev (width (view desc)) (height (view desc)) 0 (bpp (view desc))
      = Some DLO_INVALID_MODE"
  then show "dlo_mode_change dl usb dev desc mode_num = Some (dlo_err_bad_mode, dev)"
    by (simp add: dlo_mode_change_def mode_select_def)
next
  assume "resolved_mode dev desc mode_num \<noteq> None \<and> base (view desc) AND 1 \<noteq> 0"
  then show "dlo_mode_change dl usb dev desc mode_num = Some (dlo_err_bad_mode, dev)"
    by (auto simp: dlo_mode_change_resolved mode_select_def)
next
  assume a: "resolved_mode dev desc mode_num = Some m \<and> unat m < DLO_MODE_DATA_NUM \<and>
    m \<noteq> DLO_INVALID_MODE \<and> base (view desc) AND 1 = 0 \<and>
    fst (dlo_usb_write usb dev) \<noteq> dlo_ok"
  obtain rc1 d1 where w: "dlo_usb_write usb dev = (rc1, d1)"
    by (cases "dlo_usb_write usb dev")
  with a show "dlo_mode_change dl usb dev desc mode_num
        = Some (retcode_of_modenum DLO_INVALID_MODE, snd (dlo_usb_write usb dev))"
    by (auto simp: dlo_mode_change_resolved mode_select_def)
qed

lemma example_device_fields:
  "length (buffer example_device) = 64" "bufptr example_device = 0"
  "wire example_device = []" "mode example_device = zero_mode"
  by (simp_all add: example_device_def blank_device_def use_default_modes_def)

theorem dlo_mode_change_failures_witness:
  "get_mode_number example_device
     (width (view (example_mode\<lparr> view := (view example_mode)\<lparr> width := 1000 \<rparr> \<rparr>)))
     (height (view (example_mode\<lparr> view := (view example_mode)\<lparr> width := 1000 \<rparr> \<rparr>))) 0
     (bpp (view (example_mode\<lparr> view := (view example_mode)\<lparr> width := 1000 \<rparr> \<rparr>)))
     = Some DLO_INVALID_MODE \<and>
   dlo_mode_change 5 usb_ok example_device
     (example_mode\<lparr> view := (view example_mode)\<lparr> width := 1000 \<rparr> \<rparr>) DLO_INVALID_MODE
     = Some (dlo_err_bad_mode, example_device) \<and>
   resolved_mode example_device (example_mode\<lparr> view := (view example_mode)\<lparr> base := 1 \<rparr> \<rparr>) 21
     \<noteq> None \<and>
   base (view (example_mode\<lparr> view := (view example_mode)\<lparr> base := 1 \<rparr> \<rparr>)) AND 1 \<noteq> 0 \<and>
   dlo_mode_change 5 usb_ok example_device
     (example_mode\<lparr> view := (view example_mode)\<lparr> base := 1 \<rparr> \<rparr>) 21
     = Some (dlo_err_bad_mode, example_device) \<and>
   resolved_mode example_device example_mode 21 = Some 21 \<and>
   unat (21 :: 32 word) < DLO_MODE_DATA_NUM \<and> (21 :: 32 word) \<noteq> DLO_INVALID_MODE \<and>
   base (view example_mode) AND 1 = 0 \<and>
   fst (dlo_usb_write usb_fail example_device) \<noteq> dlo_ok \<and>
   dlo_mode_change 5 usb_fail example_device example_mode 21
     = Some (retcode_of_modenum DLO_INVALID_MODE,
             example_device\<lparr> bufptr := 0, wire := [Bulk_write []] \<rparr>)"
proof -
  let ?wide = "example_mode\<lparr> view := (view example_mode)\<lparr> width := 1000 \<rparr> \<rparr>"
  let ?odd = "example_mode\<lparr> view := (view example_mode)\<lparr> base := 1 \<rparr> \<rparr>"
  have g: "get_mode_number example_device (width (view ?wide)) (height (view ?wide)) 0
             (bpp (view ?wide)) = Some DLO_INVALID_MODE"
    by (simp add: get_mode_number_def supported_example_device DLO_MODE_DATA_NUM_def
        example_mode_def dlo_mode_data_eq mode_entry_def DLO_INVALID_MODE_def)
  have a: "dlo_mode_change 5 usb_ok example_device ?wide DLO_INVALID_MODE
             = Some (dlo_err_bad_mode, example_device)"
    using dlo_mode_change_failures [of DLO_INVALID_MODE example_device ?wide 5 usb_ok 0] g
    by blast
  have r1: "resolved_mode example_device ?odd 21 \<noteq> None"
    by (simp add: resolved_mode_def DLO_INVALID_MODE_def)
  have o: "base (view ?odd) AND 1 \<noteq> 0" by (simp add: example_mode_def)
  have b: "dlo_mode_change 5 usb_ok example_device ?odd 21 = Some (dlo_err_bad_mode, example_device)"
    using dlo_mode_change_failures [of 21 example_device ?odd 5 usb_ok 0] r1 o by blast
  have r2: "resolved_mode example_device example_mode 21 = Some 21"
    by (simp add: resolved_mode_def DLO_INVALID_MODE_def)
  have v: "unat (21 :: 32 word) < DLO_MODE_DATA_NUM" "(21 :: 32 word) \<noteq> DLO_INVALID_MODE"
    by (simp_all add: DLO_MODE_DATA_NUM_def DLO_INVALID_MODE_def)
  have e: "base (view example_mode) AND 1 = 0" by (simp add: example_mode_def)
  have w: "dlo_usb_write usb_fail example_device
             = (dlo_err_other 1, example_device\<lparr> bufptr := 0, wire := [Bulk_write []] \<rparr>)"
    by (simp add: dlo_usb_write_def usb_fail_def Let_def example_device_fields)
  then have f: "fst (dlo_usb_write usb_fail example_device) \<noteq> dlo_ok" by simp
  have c: "dlo_mode_change 5 usb_fail example_device example_mode 21
     = Some (retcode_of_modenum DLO_INVALID_MODE,
             example_device\<lparr> bufptr := 0, wire := [Bulk_write []] \<rparr>)"
    using dlo_mode_change_failures [of 21 example_device example_mode 5 usb_fail 21] r2 v e f w
    by simp
  from g a r1 o b r2 v e f c show ?thesis by blast
qed

text \<open>
  C8. When \<open>dlo_mode_change\<close> returns \<open>dlo_ok\<close> or \<open>dlo_warn_dl160_mode\<close>
  (the USB layer itself never reports the mode warning), the mode number it selected
  is a catalogue index \<open>m\<close>, the device's mode has the width, height, bpp and base
  of the desired mode and the refresh rate of catalogue entry \<open>m\<close>, \<open>low_blank\<close>
  is that entry's flag, \<open>base8\<close> is the desired base plus
  \<open>2 * width * height\<close> (in 32-bit arithmetic, and as a natural number when the
  sum is below \<open>2 ^ 32\<close>), and the return code is \<open>dlo_warn_dl160_mode\<close> when
  \<open>m < DLO_DL120_MODES\<close> and \<open>dlo_ok\<close> otherwise.
\<close>

theorem dlo_mode_change_completes:
  assumes run: "dlo_mode_change dl usb dev desc mode_num = Some (rc, dev')"
    and fin: "rc = dlo_ok \<or> rc = dlo_warn_dl160_mode"
    and usb: "\<forall>w. usb w \<noteq> dlo_warn_dl160_mode"
  shows "\<exists>m. resolved_mode dev desc mode_num = Some m \<and> unat m < DLO_MODE_DATA_NUM \<and>
           width (view (mode dev')) = width (view desc) \<and>
           height (view (mode dev')) = height (view desc) \<and>
           bpp (view (mode dev')) = bpp (view desc) \<and>
           base (view (mode dev')) = base (view desc) \<and>
           refresh (mode dev') = md_refresh (dlo_mode_data ! unat m) \<and>
           low_blank dev' = md_low_blank (dlo_mode_data ! unat m) \<and>
           base8 dev' = base (view desc)
                        + 2 * ucast (width (view desc)) * ucast (height (view desc)) \<and>
           (unat (base (view desc)) + 2 * unat (width (view desc)) * unat (height (view desc))
              < 2 ^ 32 \<longrightarrow>
            unat (base8 dev') = unat (base (view desc))
                                + 2 * unat (width (view desc)) * unat (height (view desc))) \<and>
           rc = (if m < dl then dlo_warn_dl160_mode else dlo_ok)"
proof -
  from run obtain m where res: "resolved_mode dev desc mode_num = Some m"
    and sel: "mode_select dl usb dev desc m = Some (rc, dev')"
    by (auto simp: dlo_mode_change_resolved split: option.splits)
  from mode_select_completes [OF sel fin usb]
  have v: "unat m < DLO_MODE_DATA_NUM"
    and md: "mode dev' = desc\<lparr> refresh := md_refresh (dlo_mode_data ! unat m) \<rparr>"
    and lb: "low_blank dev' = md_low_blank (dlo_mode_data ! unat m)"
    and b8: "base8 dev' = base (view desc)
               + BYTES_PER_16BPP * ucast (width (view desc)) * ucast (height (view desc))"
    and out: "rc = (if m < dl then dlo_warn_dl160_mode else dlo_ok)"
    by simp_all
  have nat8: "unat (base (view desc)) + 2 * unat (width (view desc)) * unat (height (view desc))
                < 2 ^ 32 \<longrightarrow>
              unat (base8 dev') = unat (base (view desc))
                                  + 2 * unat (width (view desc)) * unat (height (view desc))"
    unfolding b8 by (rule impI) (rule unat_base8)
  from b8 have b8': "base8 dev' = base (view desc)
                        + 2 * ucast (width (view desc)) * ucast (height (view desc))"
    by (simp add: BYTES_PER_16BPP_def)
  from res v md lb b8' nat8 out show ?thesis by simp
qed

theorem dlo_mode_change_completes_witness:
  "(\<forall>w. usb_ok w \<noteq> dlo_warn_dl160_mode) \<and>
   (\<exists>d. dlo_mode_change 5 usb_ok example_device example_mode 21 = Some (dlo_ok, d) \<and>
        width (view (mode d)) = 1024 \<and> height (view (mode d)) = 768 \<and>
        bpp (view (mode d)) = 24 \<and> base (view (mode d)) = 0x100000 \<and>
        refresh (mode d) = 60 \<and> \<not> low_blank d \<and> base8 d = 0x280000 \<and>
        unat (base8 d) = 1048576 + 2 * 1024 * 768) \<and>
   (\<exists>d. dlo_mode_change 22 usb_ok example_device example_mode 21
           = Some (dlo_warn_dl160_mode, d))"
proof -
  have u: "\<forall>w. usb_ok w \<noteq> dlo_warn_dl160_mode" by (simp add: usb_ok_def)
  have v: "unat (21 :: 32 word) < DLO_MODE_DATA_NUM" "(21 :: 32 word) \<noteq> DLO_INVALID_MODE"
    by (simp_all add: DLO_MODE_DATA_NUM_def DLO_INVALID_MODE_def)
  have e: "base (view example_mode) AND 1 = 0" by (simp add: example_mode_def)
  have l: "34 \<le> length (buffer example_device)" by (simp add: example_device_fields)
  have ch: "dlo_mode_change dl usb_ok example_device example_mode 21
              = mode_select dl usb_ok example_device example_mode 21" for dl
    by (simp add: dlo_mode_change_def DLO_INVALID_MODE_def)
  from mode_select_runs [OF v e l, of 5] obtain d
    where run: "dlo_mode_change 5 usb_ok example_device example_mode 21 = Some (dlo_ok, d)"
    by (auto simp: ch)
  from mode_select_runs [OF v e l, of 22] obtain d'
    where run': "dlo_mode_change 22 usb_ok example_device example_mode 21
                   = Some (dlo_warn_dl160_mode, d')"
    by (auto simp: ch)
  have r: "resolved_mode example_device example_mode 21 = Some 21"
    by (simp add: resolved_mode_def DLO_INVALID_MODE_def)
  have c: "dlo_mode_data ! 21 = mode_entry 1024 768 60 24" by (simp add: dlo_mode_data_eq)
  from dlo_mode_change_completes [OF run _ u] r
  have "width (view (mode d)) = 1024 \<and> height (view (mode d)) = 768 \<and>
        bpp (view (mode d)) = 24 \<and> base (view (mode d)) = 0x100000 \<and>
        refresh (mode d) = 60 \<and> \<not> low_blank d \<and> base8 d = 0x280000 \<and>
        unat (base8 d) = 1048576 + 2 * 1024 * 768"
    by (simp add: example_mode_def c mode_entry_def)
  with u run run' show ?thesis by blast
qed

section \<open>Building the supported list\<close>

lemma invalid_not_index: "\<not> unat DLO_INVALID_MODE < DLO_MODE_DATA_NUM"
  by (simp add: DLO_INVALID_MODE_def DLO_MODE_DATA_NUM_def unsigned_minus_1_eq_mask
      mask_eq_exp_minus_1)

lemma index_not_invalid: "unat n < DLO_MODE_DATA_NUM \<Longrightarrow> n \<noteq> DLO_INVALID_MODE"
  using invalid_not_index by auto

lemma get_mode_number_loop_ok:
  "list_all (\<lambda>n. n = DLO_INVALID_MODE \<or> unat n < DLO_MODE_DATA_NUM) xs \<Longrightarrow>
   \<exists>num. get_mode_number_loop xs w h r b = Some num \<and>
         (num = DLO_INVALID_MODE \<or> (unat num < DLO_MODE_DATA_NUM \<and> mode_matches num w h r b))"
proof (induction xs)
  case Nil
  show ?case by simp
next
  case (Cons n xs)
  then show ?case
    by (cases "n = DLO_INVALID_MODE")
       (auto simp: get_mode_number_loop_Cons simp del: get_mode_number_loop.simps)
qed

lemma get_mode_number_ok:
  assumes "supported_ok dev"
  shows "\<exists>num. get_mode_number dev w h r b = Some num \<and>
         (num = DLO_INVALID_MODE \<or> (unat num < DLO_MODE_DATA_NUM \<and> mode_matches num w h r b))"
proof -
  from assms have "list_all (\<lambda>n. n = DLO_INVALID_MODE \<or> unat n < DLO_MODE_DATA_NUM)
                     (take DLO_MODE_DATA_NUM (supported dev))"
    by (simp add: supported_ok_def)
  from get_mode_number_loop_ok [OF this] show ?thesis
    by (simp add: get_mode_number_def)
qed

lemma mode_matches_can_hit:
  assumes "unat num < DLO_MODE_DATA_NUM" and "mode_matches num w h r b"
  shows "can_hit w h r"
proof -
  from assms(1) have "dlo_mode_data ! unat num \<in> set dlo_mode_data"
    by (simp add: length_dlo_mode_data)
  with assms(2) show ?thesis
    unfolding can_hit_def mode_matches_def list_ex_iff by blast
qed

lemma add_supported_step:
  assumes "supported_ok dev"
  shows "add_supported dev idx w h r = Some (idx, dev) \<or>
         (\<exists>num. unat num < DLO_MODE_DATA_NUM \<and> mode_matches num w h r 24 \<and>
            add_supported dev idx w h r =
              (if idx < DLO_MODE_DATA_NUM
               then Some (idx + 1, dev\<lparr> supported := (supported dev)[idx := num] \<rparr>)
               else None))"
proof -
  from get_mode_number_ok [OF assms, of w h r 24] obtain num
    where g: "get_mode_number dev w h r 24 = Some num"
      and c: "num = DLO_INVALID_MODE \<or> (unat num < DLO_MODE_DATA_NUM \<and> mode_matches num w h r 24)"
    by blast
  show ?thesis
  proof (cases "num = DLO_INVALID_MODE")
    case True
    with g show ?thesis by (simp add: add_supported_def)
  next
    case False
    with c g show ?thesis by (auto simp: add_supported_def)
  qed
qed

lemma build_inv_update:
  assumes inv: "build_inv dev idx" and lt: "idx < DLO_MODE_DATA_NUM"
    and num: "unat num < DLO_MODE_DATA_NUM"
  shows "build_inv (dev\<lparr> supported := (supported dev)[idx := num] \<rparr>) (idx + 1)"
proof -
  from inv have len: "length (supported dev) = DLO_MODE_DATA_NUM"
    and all: "\<forall>n \<in> set (supported dev). n = DLO_INVALID_MODE \<or> unat n < DLO_MODE_DATA_NUM"
    and pre: "\<forall>j<idx. unat (supported dev ! j) < DLO_MODE_DATA_NUM"
    by (simp_all add: build_inv_def supported_ok_def list_all_iff)
  have "\<forall>n \<in> set ((supported dev)[idx := num]). n = DLO_INVALID_MODE \<or> unat n < DLO_MODE_DATA_NUM"
    using all num set_update_subset_insert [of "supported dev" idx num] by auto
  moreover have "\<forall>j<idx + 1. unat ((supported dev)[idx := num] ! j) < DLO_MODE_DATA_NUM"
    using pre num lt len by (auto simp: nth_list_update less_Suc_eq)
  ultimately show ?thesis
    using len lt by (simp add: build_inv_def supported_ok_def list_all_iff)
qed

lemma est_loop_runs:
  assumes "build_inv dev idx"
    and "idx + length (filter est_can_hit ts) \<le> DLO_MODE_DATA_NUM"
  shows "\<exists>idx' dev'. est_loop dev idx ts = Some (idx', dev') \<and> build_inv dev' idx' \<and>
           idx \<le> idx' \<and> idx' \<le> idx + length (filter est_can_hit ts) \<and>
           native dev' = native dev"
  using assms
proof (induction ts arbitrary: dev idx)
  case Nil
  then show ?case by simp
next
  case (Cons t ts)
  from Cons.prems(1) have ok: "supported_ok dev" by (simp add: build_inv_def)
  show ?case
  proof (cases "et_width t = 0")
    case True
    then have "\<not> est_can_hit t" by (simp add: est_can_hit_def)
    with Cons.IH [of dev idx] Cons.prems True show ?thesis by simp
  next
    case False
    from add_supported_step [OF ok, of idx "et_width t" "et_height t" "et_refresh t"]
    show ?thesis
    proof (elim disjE exE conjE)
      assume same: "add_supported dev idx (et_width t) (et_height t) (et_refresh t) = Some (idx, dev)"
      have "idx + length (filter est_can_hit ts) \<le> DLO_MODE_DATA_NUM"
        using Cons.prems(2) by (simp split: if_splits)
      from Cons.IH [OF Cons.prems(1) this] False same show ?thesis
        by (auto split: if_splits)
    next
      fix num
      assume v: "unat num < DLO_MODE_DATA_NUM"
        and m: "mode_matches num (et_width t) (et_height t) (et_refresh t) 24"
        and a: "add_supported dev idx (et_width t) (et_height t) (et_refresh t) =
                  (if idx < DLO_MODE_DATA_NUM
                   then Some (idx + 1, dev\<lparr> supported := (supported dev)[idx := num] \<rparr>)
                   else None)"
      from mode_matches_can_hit [OF v m] False have hit: "est_can_hit t"
        by (simp add: est_can_hit_def)
      with Cons.prems(2) have lt: "idx < DLO_MODE_DATA_NUM"
        and room: "(idx + 1) + length (filter est_can_hit ts) \<le> DLO_MODE_DATA_NUM"
        by simp_all
      let ?d = "dev\<lparr> supported := (supported dev)[idx := num] \<rparr>"
      from build_inv_update [OF Cons.prems(1) lt v] have inv: "build_inv ?d (idx + 1)" .
      from Cons.IH [OF inv room] a lt False hit show ?thesis
        by auto
    qed
  qed
qed

lemma hz_loop_runs:
  assumes "build_inv dev idx"
    and "idx + length (filter (can_hit (ucast (detail_width detail))
                                        (ucast (detail_height detail))) hzs)
           \<le> DLO_MODE_DATA_NUM"
  shows "\<exists>idx' dev'. hz_loop dev idx detail hzs = Some (idx', dev') \<and> build_inv dev' idx' \<and>
           idx \<le> idx' \<and>
           idx' \<le> idx + length (filter (can_hit (ucast (detail_width detail))
                                                 (ucast (detail_height detail))) hzs) \<and>
           (idx' = idx \<longrightarrow> dev' = dev) \<and>
           (idx < idx' \<longrightarrow>
              native dev' = mode_of_data (dlo_mode_data ! unat (supported dev' ! (idx' - 1))) \<and>
              (\<exists>hz \<in> set hzs. mode_matches (supported dev' ! (idx' - 1))
                                  (ucast (detail_width detail)) (ucast (detail_height detail))
                                  hz 24))"
  using assms
proof (induction hzs arbitrary: dev idx)
  case Nil
  then show ?case by simp
next
  case (Cons hz hzs)
  let ?w = "ucast (detail_width detail) :: 16 word"
  let ?h = "ucast (detail_height detail) :: 16 word"
  from Cons.prems(1) have ok: "supported_ok dev" by (simp add: build_inv_def)
  from add_supported_step [OF ok, of idx ?w ?h hz]
  show ?case
  proof (elim disjE exE conjE)
    assume same: "add_supported dev idx ?w ?h hz = Some (idx, dev)"
    have "idx + length (filter (can_hit ?w ?h) hzs) \<le> DLO_MODE_DATA_NUM"
      using Cons.prems(2) by (simp split: if_splits)
    from Cons.IH [OF Cons.prems(1) this] same show ?thesis
      by (auto split: if_splits)
  next
    fix num
    assume v: "unat num < DLO_MODE_DATA_NUM"
      and m: "mode_matches num ?w ?h hz 24"
      and a: "add_supported dev idx ?w ?h hz =
                (if idx < DLO_MODE_DATA_NUM
                 then Some (idx + 1, dev\<lparr> supported := (supported dev)[idx := num] \<rparr>)
                 else None)"
    from mode_matches_can_hit [OF v m] have hit: "can_hit ?w ?h hz" .
    with Cons.prems(2) have lt: "idx < DLO_MODE_DATA_NUM"
      and room: "(idx + 1) + length (filter (can_hit ?w ?h) hzs) \<le> DLO_MODE_DATA_NUM"
      by simp_all
    let ?d1 = "dev\<lparr> supported := (supported dev)[idx := num] \<rparr>"
    let ?d = "?d1\<lparr> native := mode_of_data (dlo_mode_data ! unat num) \<rparr>"
    from Cons.prems(1) have len: "length (supported dev) = DLO_MODE_DATA_NUM"
      by (simp add: build_inv_def supported_ok_def)
    from build_inv_update [OF Cons.prems(1) lt v] have "build_inv ?d1 (idx + 1)" .
    then have inv: "build_inv ?d (idx + 1)" by (simp add: build_inv_def supported_ok_def)
    have step: "hz_loop dev idx detail (hz # hzs) = hz_loop ?d (idx + 1) detail hzs"
      using a lt len v by (simp add: Let_def)
    from Cons.IH [OF inv room] obtain idx' dev'
      where run: "hz_loop ?d (idx + 1) detail hzs = Some (idx', dev')"
        and inv': "build_inv dev' idx'"
        and le: "idx + 1 \<le> idx'"
        and ub: "idx' \<le> (idx + 1) + length (filter (can_hit ?w ?h) hzs)"
        and same': "idx' = idx + 1 \<longrightarrow> dev' = ?d"
        and more: "idx + 1 < idx' \<longrightarrow>
              native dev' = mode_of_data (dlo_mode_data ! unat (supported dev' ! (idx' - 1))) \<and>
              (\<exists>hz \<in> set hzs. mode_matches (supported dev' ! (idx' - 1)) ?w ?h hz 24)"
      by blast
    have last: "native dev' = mode_of_data (dlo_mode_data ! unat (supported dev' ! (idx' - 1))) \<and>
              (\<exists>hz' \<in> set (hz # hzs). mode_matches (supported dev' ! (idx' - 1)) ?w ?h hz' 24)"
    proof (cases "idx' = idx + 1")
      case True
      with same' have "dev' = ?d" by simp
      with True m lt len show ?thesis by simp
    next
      case False
      with le more show ?thesis by auto
    qed
    from run inv' le ub last hit show ?thesis
      unfolding step by auto
  qed
qed

lemma refreshes_for_le: "length (refreshes_for w) \<le> 5"
proof (cases "w \<in> set (map md_width dlo_mode_data)")
  case False
  then have "filter (\<lambda>d. md_width d = w) dlo_mode_data = []"
    by (auto simp: filter_empty_conv)
  then show ?thesis by (simp add: refreshes_for_def)
next
  case True
  then have "w = 1920 \<or> w = 1600 \<or> w = 1400 \<or> w = 1366 \<or> w = 1360 \<or> w = 1280 \<or>
             w = 1152 \<or> w = 1024 \<or> w = 848 \<or> w = 800 \<or> w = 720 \<or> w = 640"
    by (auto simp: dlo_mode_data_eq mode_entry_def)
  then show ?thesis
    by (elim disjE) (simp_all add: refreshes_for_def dlo_mode_data_eq mode_entry_def)
qed

lemma can_hit_refreshes_for:
  assumes "can_hit w h r" and "r \<noteq> 0"
  shows "r \<in> set (refreshes_for w)"
  using assms unfolding can_hit_def refreshes_for_def list_ex_iff by auto

lemma hz_values_distinct: "distinct hz_values"
  unfolding hz_values_def by (simp add: upt_rec)

lemma hz_values_nonzero: "hz \<in> set hz_values \<Longrightarrow> hz \<noteq> 0"
  unfolding hz_values_def by (simp add: upt_rec) auto

lemma hz_count: "length (filter (can_hit w h) hz_values) \<le> 5"
proof -
  have "set (filter (can_hit w h) hz_values) \<subseteq> set (refreshes_for w)"
    using can_hit_refreshes_for hz_values_nonzero by auto
  then have "card (set (filter (can_hit w h) hz_values)) \<le> card (set (refreshes_for w))"
    by (intro card_mono) simp_all
  moreover have "card (set (filter (can_hit w h) hz_values))
                   = length (filter (can_hit w h) hz_values)"
    by (intro distinct_card distinct_filter hz_values_distinct)
  moreover have "card (set (refreshes_for w)) \<le> length (refreshes_for w)"
    by (rule card_length)
  ultimately show ?thesis using refreshes_for_le [of w] by linarith
qed

lemma est_count: "length (filter est_can_hit est_timings) = 11"
  by (simp add: est_timings_def est_can_hit_def can_hit_def dlo_mode_data_eq mode_entry_def)

lemma desc_loop_runs:
  assumes "build_inv dev idx" and "idx + 5 * length ds \<le> DLO_MODE_DATA_NUM"
  shows "\<exists>idx' dev'. desc_loop dev idx ds = Some (idx', dev') \<and> build_inv dev' idx' \<and>
           idx \<le> idx' \<and> idx' \<le> idx + 5 * length ds \<and>
           (idx' = idx \<longrightarrow> dev' = dev) \<and>
           (idx < idx' \<longrightarrow>
              native dev' = mode_of_data (dlo_mode_data ! unat (supported dev' ! (idx' - 1))) \<and>
              (\<exists>detail hz. Detail detail \<in> set ds \<and> hz \<in> set hz_values \<and>
                 mode_matches (supported dev' ! (idx' - 1))
                   (ucast (detail_width detail)) (ucast (detail_height detail)) hz 24))"
  using assms
proof (induction ds arbitrary: dev idx)
  case Nil
  then show ?case by simp
next
  case (Cons d ds)
  show ?case
  proof (cases d)
    case Monitor_desc
    from Cons.prems(2) have "idx + 5 * length ds \<le> DLO_MODE_DATA_NUM" by simp
    from Cons.IH [OF Cons.prems(1) this] Monitor_desc show ?thesis
      by (simp only: desc_loop.simps) fastforce
  next
    case (Detail detail)
    let ?w = "ucast (detail_width detail) :: 16 word"
    let ?h = "ucast (detail_height detail) :: 16 word"
    have c5: "length (filter (can_hit ?w ?h) hz_values) \<le> 5" by (rule hz_count)
    with Cons.prems(2)
    have "idx + length (filter (can_hit ?w ?h) hz_values) \<le> DLO_MODE_DATA_NUM" by simp
    from hz_loop_runs [OF Cons.prems(1) this] obtain i1 d1
      where run1: "hz_loop dev idx detail hz_values = Some (i1, d1)"
        and inv1: "build_inv d1 i1" and le1: "idx \<le> i1"
        and ub1: "i1 \<le> idx + length (filter (can_hit ?w ?h) hz_values)"
        and same1: "i1 = idx \<longrightarrow> d1 = dev"
        and more1: "idx < i1 \<longrightarrow>
              native d1 = mode_of_data (dlo_mode_data ! unat (supported d1 ! (i1 - 1))) \<and>
              (\<exists>hz \<in> set hz_values. mode_matches (supported d1 ! (i1 - 1)) ?w ?h hz 24)"
      by blast
    from ub1 c5 Cons.prems(2) have room: "i1 + 5 * length ds \<le> DLO_MODE_DATA_NUM" by simp
    from Cons.IH [OF inv1 room] obtain idx' dev'
      where run: "desc_loop d1 i1 ds = Some (idx', dev')"
        and inv': "build_inv dev' idx'" and le: "i1 \<le> idx'"
        and ub: "idx' \<le> i1 + 5 * length ds"
        and same': "idx' = i1 \<longrightarrow> dev' = d1"
        and more: "i1 < idx' \<longrightarrow>
              native dev' = mode_of_data (dlo_mode_data ! unat (supported dev' ! (idx' - 1))) \<and>
              (\<exists>detail hz. Detail detail \<in> set ds \<and> hz \<in> set hz_values \<and>
                 mode_matches (supported dev' ! (idx' - 1))
                   (ucast (detail_width detail)) (ucast (detail_height detail)) hz 24)"
      by blast
    have step: "desc_loop dev idx (d # ds) = Some (idx', dev')"
      using Detail run1 run by simp
    have bound: "idx' \<le> idx + 5 * length (d # ds)" using ub ub1 c5 by simp
    have same: "idx' = idx \<longrightarrow> dev' = dev" using le le1 same' same1 by auto
    have last: "idx < idx' \<longrightarrow>
              native dev' = mode_of_data (dlo_mode_data ! unat (supported dev' ! (idx' - 1))) \<and>
              (\<exists>detail hz. Detail detail \<in> set (d # ds) \<and> hz \<in> set hz_values \<and>
                 mode_matches (supported dev' ! (idx' - 1))
                   (ucast (detail_width detail)) (ucast (detail_height detail)) hz 24)"
    proof (cases "idx' = i1")
      case True
      with same' have "dev' = d1" by simp
      with True more1 Detail show ?thesis by auto
    next
      case False
      with le more show ?thesis by auto
    qed
    from step inv' le le1 bound same last show ?thesis by auto
  qed
qed

lemma fill_loop_eq:
  "length s = DLO_MODE_DATA_NUM \<Longrightarrow> idx \<le> DLO_MODE_DATA_NUM - 1 \<Longrightarrow>
   fill_loop s idx =
     take idx s @ replicate (DLO_MODE_DATA_NUM - 1 - idx) DLO_INVALID_MODE
       @ drop (DLO_MODE_DATA_NUM - 1) s"
proof (induction s idx rule: fill_loop.induct)
  case (1 s idx)
  show ?case
  proof (cases "idx < DLO_MODE_DATA_NUM - 1")
    case False
    with "1.prems" have "idx = DLO_MODE_DATA_NUM - 1" by simp
    then show ?thesis by (subst fill_loop.simps) simp
  next
    case True
    with "1.prems" have lt: "idx < length s" by simp
    have "fill_loop (s[idx := DLO_INVALID_MODE]) (idx + 1) =
            take (idx + 1) (s[idx := DLO_INVALID_MODE])
              @ replicate (DLO_MODE_DATA_NUM - 1 - (idx + 1)) DLO_INVALID_MODE
              @ drop (DLO_MODE_DATA_NUM - 1) (s[idx := DLO_INVALID_MODE])"
      using True "1.prems" by (intro "1.IH") simp_all
    moreover have "take (idx + 1) (s[idx := DLO_INVALID_MODE]) = take idx s @ [DLO_INVALID_MODE]"
      using lt by (simp add: take_Suc_conv_app_nth)
    moreover have "drop (DLO_MODE_DATA_NUM - 1) (s[idx := DLO_INVALID_MODE])
                     = drop (DLO_MODE_DATA_NUM - 1) s"
      using True by simp
    moreover have "replicate (DLO_MODE_DATA_NUM - 1 - idx) DLO_INVALID_MODE
                     = DLO_INVALID_MODE # replicate (DLO_MODE_DATA_NUM - 1 - (idx + 1)) DLO_INVALID_MODE"
      using True by (simp add: replicate_Suc [symmetric] Suc_diff_Suc del: replicate_Suc)
    ultimately show ?thesis
      using True by (subst fill_loop.simps) simp
  qed
qed

lemma supported_ok_build_inv: "supported_ok dev \<Longrightarrow> build_inv dev 0"
  by (simp add: build_inv_def)

lemma before_sentinel_filled:
  assumes inv: "build_inv d2 i2" and ub: "i2 < DLO_MODE_DATA_NUM - 1"
  shows "before_sentinel (d2\<lparr> supported := fill_loop (supported d2) i2 \<rparr>)
           = take i2 (supported d2)"
    and "supported_ok (d2\<lparr> supported := fill_loop (supported d2) i2 \<rparr>)"
proof -
  let ?s = "supported d2"
  let ?n = "DLO_MODE_DATA_NUM - 1 - i2"
  from inv have len: "length ?s = DLO_MODE_DATA_NUM"
    and all: "\<forall>n \<in> set ?s. n = DLO_INVALID_MODE \<or> unat n < DLO_MODE_DATA_NUM"
    and pre: "\<forall>j<i2. unat (?s ! j) < DLO_MODE_DATA_NUM"
    by (simp_all add: build_inv_def supported_ok_def list_all_iff)
  from ub have n: "?n = Suc (?n - 1)" by simp
  have f: "fill_loop ?s i2 = take i2 ?s @ replicate ?n DLO_INVALID_MODE
                               @ drop (DLO_MODE_DATA_NUM - 1) ?s"
    using len ub by (intro fill_loop_eq) simp_all
  have flen: "length (fill_loop ?s i2) = DLO_MODE_DATA_NUM"
    unfolding f using len ub by simp
  have valid: "\<forall>x \<in> set (take i2 ?s). x \<noteq> DLO_INVALID_MODE"
  proof
    fix x assume "x \<in> set (take i2 ?s)"
    then obtain j where "j < i2" "x = ?s ! j"
      using len ub by (auto simp: in_set_conv_nth)
    with pre index_not_invalid show "x \<noteq> DLO_INVALID_MODE" by auto
  qed
  have "takeWhile (\<lambda>n. n \<noteq> DLO_INVALID_MODE) (fill_loop ?s i2) = take i2 ?s"
    unfolding f
    by (subst n, subst takeWhile_append2) (use valid in simp_all)
  then show "before_sentinel (d2\<lparr> supported := fill_loop (supported d2) i2 \<rparr>)
               = take i2 (supported d2)"
    by (simp add: before_sentinel_def flen)
  have "\<forall>n \<in> set (fill_loop ?s i2). n = DLO_INVALID_MODE \<or> unat n < DLO_MODE_DATA_NUM"
    unfolding f using all by (auto dest: in_set_takeD in_set_dropD)
  then show "supported_ok (d2\<lparr> supported := fill_loop (supported d2) i2 \<rparr>)"
    by (simp add: supported_ok_def flen list_all_iff)
qed

lemma lookup_edid_modes_result:
  assumes ok: "supported_ok dev"
  shows "\<exists>i0 d0 dev'.
           est_loop (dev\<lparr> native := zero_mode \<rparr>) 0 est_timings = Some (i0, d0) \<and>
           lookup_edid_modes dev edid = Some (dlo_ok, dev') \<and>
           supported_ok dev' \<and>
           i0 \<le> length (before_sentinel dev') \<and>
           length (before_sentinel dev') \<le> 31 \<and>
           list_all (\<lambda>n. unat n < DLO_MODE_DATA_NUM) (before_sentinel dev') \<and>
           (length (before_sentinel dev') = i0 \<longrightarrow> native dev' = zero_mode) \<and>
           (i0 < length (before_sentinel dev') \<longrightarrow>
              native dev' = mode_of_data (dlo_mode_data ! unat (last (before_sentinel dev'))) \<and>
              (\<exists>detail hz. Detail detail \<in> set (take 4 (timings edid)) \<and> hz \<in> set hz_values \<and>
                 mode_matches (last (before_sentinel dev'))
                   (ucast (detail_width detail)) (ucast (detail_height detail)) hz 24))"
proof -
  let ?dev0 = "dev\<lparr> native := zero_mode \<rparr>"
  from ok have ok0: "supported_ok ?dev0" by (simp add: supported_ok_def)
  have "0 + length (filter est_can_hit est_timings) \<le> DLO_MODE_DATA_NUM"
    by (simp add: est_count DLO_MODE_DATA_NUM_def)
  from est_loop_runs [OF supported_ok_build_inv [OF ok0] this] obtain i0 d0
    where e: "est_loop ?dev0 0 est_timings = Some (i0, d0)"
      and inv0: "build_inv d0 i0" and ub0: "i0 \<le> 11" and n0: "native d0 = zero_mode"
    by (auto simp: est_count)
  let ?ds = "take 4 (timings edid)"
  have "i0 + 5 * length ?ds \<le> DLO_MODE_DATA_NUM"
    using ub0 by (simp add: DLO_MODE_DATA_NUM_def)
  from desc_loop_runs [OF inv0 this] obtain i2 d2
    where d: "desc_loop d0 i0 ?ds = Some (i2, d2)"
      and inv2: "build_inv d2 i2" and le2: "i0 \<le> i2" and ub2': "i2 \<le> i0 + 5 * length ?ds"
      and same2: "i2 = i0 \<longrightarrow> d2 = d0"
      and more2: "i0 < i2 \<longrightarrow>
              native d2 = mode_of_data (dlo_mode_data ! unat (supported d2 ! (i2 - 1))) \<and>
              (\<exists>detail hz. Detail detail \<in> set ?ds \<and> hz \<in> set hz_values \<and>
                 mode_matches (supported d2 ! (i2 - 1))
                   (ucast (detail_width detail)) (ucast (detail_height detail)) hz 24)"
    by blast
  from ub0 ub2' have ub2: "i2 \<le> 31" by simp
  then have lt: "i2 < DLO_MODE_DATA_NUM - 1" by (simp add: DLO_MODE_DATA_NUM_def)
  let ?dev' = "d2\<lparr> supported := fill_loop (supported d2) i2 \<rparr>"
  have run: "lookup_edid_modes dev edid = Some (dlo_ok, ?dev')"
    by (simp add: lookup_edid_modes_def Let_def e d)
  from inv2 have len: "length (supported d2) = DLO_MODE_DATA_NUM"
    and pre: "\<forall>j<i2. unat (supported d2 ! j) < DLO_MODE_DATA_NUM"
    by (simp_all add: build_inv_def supported_ok_def)
  have bs: "before_sentinel ?dev' = take i2 (supported d2)"
    and ok': "supported_ok ?dev'"
    by (rule before_sentinel_filled [OF inv2 lt])+
  have blen: "length (before_sentinel ?dev') = i2"
    using len lt by (simp add: bs)
  have ball: "list_all (\<lambda>n. unat n < DLO_MODE_DATA_NUM) (before_sentinel ?dev')"
    unfolding bs list_all_iff using pre len lt by (auto simp: in_set_conv_nth)
  have blast': "last (before_sentinel ?dev') = supported d2 ! (i2 - 1)" if "0 < i2"
  proof -
    from that len lt have ne: "take i2 (supported d2) \<noteq> []" by auto
    from len lt have l: "length (take i2 (supported d2)) = i2" by simp
    from that show ?thesis
      unfolding bs last_conv_nth [OF ne] l by simp
  qed
  have nat0: "length (before_sentinel ?dev') = i0 \<longrightarrow> native ?dev' = zero_mode"
    using blen same2 n0 by auto
  have nat1: "i0 < length (before_sentinel ?dev') \<longrightarrow>
              native ?dev' = mode_of_data (dlo_mode_data ! unat (last (before_sentinel ?dev'))) \<and>
              (\<exists>detail hz. Detail detail \<in> set ?ds \<and> hz \<in> set hz_values \<and>
                 mode_matches (last (before_sentinel ?dev'))
                   (ucast (detail_width detail)) (ucast (detail_height detail)) hz 24)"
  proof
    assume "i0 < length (before_sentinel ?dev')"
    then have gt: "i0 < i2" by (simp add: blen)
    then have "0 < i2" by simp
    from blast' [OF this] more2 gt
    show "native ?dev' = mode_of_data (dlo_mode_data ! unat (last (before_sentinel ?dev'))) \<and>
              (\<exists>detail hz. Detail detail \<in> set ?ds \<and> hz \<in> set hz_values \<and>
                 mode_matches (last (before_sentinel ?dev'))
                   (ucast (detail_width detail)) (ucast (detail_height detail)) hz 24)"
      by simp
  qed
  have le2': "i0 \<le> length (before_sentinel ?dev')" and ub2'': "length (before_sentinel ?dev') \<le> 31"
    using le2 ub2 by (simp_all only: blen)
  show ?thesis
    by (intro exI [of _ i0] exI [of _ d0] exI [of _ ?dev'] conjI e run ok' le2' ub2'' ball nat0 nat1)
qed

section \<open>Parsing EDID\<close>

lemma cat_nth:
  "dlo_mode_data ! 0 = mode_entry 1920 1080 60 24"
  "dlo_mode_data ! 1 = mode_entry 1600 1200 60 24"
  "dlo_mode_data ! Suc 0 = mode_entry 1600 1200 60 24"
  "dlo_mode_data ! 2 = mode_entry 1400 1050 85 24"
  "dlo_mode_data ! 3 = mode_entry 1400 1050 75 24"
  "dlo_mode_data ! 4 = mode_entry 1400 1050 60 24"
  "dlo_mode_data ! 5 = mode_entry 1400 1050 60 24"
  "dlo_mode_data ! 6 = mode_entry 1366 768 60 24"
  "dlo_mode_data ! 7 = mode_entry 1360 768 60 24"
  "dlo_mode_data ! 8 = mode_entry 1280 960 85 24"
  "dlo_mode_data ! 9 = mode_entry 1280 960 60 24"
  "dlo_mode_data ! 10 = mode_entry 1280 800 60 24"
  "dlo_mode_data ! 11 = mode_entry 1280 768 85 24"
  "dlo_mode_data ! 12 = mode_entry 1280 768 75 24"
  "dlo_mode_data ! 13 = mode_entry 1280 1024 85 24"
  "dlo_mode_data ! 14 = mode_entry 1280 1024 75 24"
  "dlo_mode_data ! 15 = mode_entry 1280 1024 60 24"
  "dlo_mode_data ! 16 = mode_entry 1280 768 60 24"
  "dlo_mode_data ! 17 = mode_entry 1152 864 75 24"
  "dlo_mode_data ! 18 = mode_entry 1024 768 85 24"
  "dlo_mode_data ! 19 = mode_entry 1024 768 75 24"
  "dlo_mode_data ! 20 = mode_entry 1024 768 70 24"
  "dlo_mode_data ! 21 = mode_entry 1024 768 60 24"
  "dlo_mode_data ! 22 = mode_entry 848 480 60 24"
  "dlo_mode_data ! 23 = mode_entry 800 600 85 24"
  "dlo_mode_data ! 24 = mode_entry 800 600 75 24"
  "dlo_mode_data ! 25 = mode_entry 800 600 72 24"
  "dlo_mode_data ! 26 = mode_entry 800 600 60 24"
  "dlo_mode_data ! 27 = mode_entry 800 600 56 24"
  "dlo_mode_data ! 28 = mode_entry 800 480 60 24"
  "dlo_mode_data ! 29 = mode_entry 720 400 85 24"
  "dlo_mode_data ! 30 = mode_entry 720 400 70 24"
  "dlo_mode_data ! 31 = mode_entry 640 480 85 24"
  "dlo_mode_data ! 32 = mode_entry 640 480 75 24"
  "dlo_mode_data ! 33 = mode_entry 640 480 73 24"
  "dlo_mode_data ! 34 = mode_entry 640 480 60 24"
  by (simp_all add: dlo_mode_data_eq)

lemma est_loop_example:
  "est_loop (example_device\<lparr> native := zero_mode \<rparr>) 0 est_timings =
     Some (11, example_device\<lparr> native := zero_mode, supported := est_supported \<rparr>)"
  by (simp add: est_timings_def add_supported_def get_mode_number_def supported_example_device
      DLO_MODE_DATA_NUM_def DLO_INVALID_MODE_def cat_nth mode_entry_def est_supported_def)

lemma parse_edid_est_640:
  "timings (parse_edid_record edid_est_640) = [Monitor_desc, Monitor_desc, Monitor_desc, Monitor_desc]"
  by (simp add: parse_edid_record_def stored_desc_def parse_edid_detail_desc_def RD_B_def
      edid_est_640_def upt_rec)


text \<open>
  The loop over the standard timings leaves the bytes \<open>0x26\<close> to \<open>0x2D\<close> in
  the eight elements of the array.
\<close>

lemma std_timings_parse_edid_record:
  "std_timings (parse_edid_record ptr) = map (\<lambda>i. ucast (RD_B ptr (0x26 + i))) [0..<8]"
  by (simp add: parse_edid_record_def sizeof_timing_id_def store_timing_id_def upt_rec
      eval_nat_numeral)

lemma hz_loop_example:
  "hz_loop (example_device\<lparr> native := zero_mode, supported := est_supported \<rparr>) 11 detail_1280 hz_values =
     Some (14, example_device\<lparr> native := mode_of_data (mode_entry 1280 1024 85 24),
                  supported := est_supported[11 := 15, 12 := 14, 13 := 13] \<rparr>)"
  by (simp add: hz_values_def upt_rec add_supported_def get_mode_number_def est_supported_def
      DLO_MODE_DATA_NUM_def DLO_INVALID_MODE_def cat_nth mode_entry_def detail_1280_def
      detail_width_def detail_height_def Let_def)

lemma checksum_fold:
  "fold (\<lambda>byte csum. csum + byte) xs (c :: 8 word) = c + of_nat (sum_list (map unat xs))"
  by (induction xs arbitrary: c) (simp_all add: add.assoc)

lemma bad_edid_checksum_iff:
  "length ptr = sz \<Longrightarrow> bad_edid_checksum ptr sz \<longleftrightarrow> sum_list (map unat ptr) mod 256 \<noteq> 0"
proof -
  assume "length ptr = sz"
  then have "bad_edid_checksum ptr sz \<longleftrightarrow> (of_nat (sum_list (map unat ptr)) :: 8 word) \<noteq> 0"
    by (auto simp: bad_edid_checksum_def checksum_fold)
  also have "\<dots> \<longleftrightarrow> \<not> 2 ^ LENGTH(8) dvd sum_list (map unat ptr)"
    by (simp only: word_of_nat_eq_0_iff)
  also have "\<dots> \<longleftrightarrow> sum_list (map unat ptr) mod 256 \<noteq> 0"
    by (simp add: dvd_eq_mod_eq_0)
  finally show ?thesis .
qed

lemma lookup_edid_modes_ok:
  "supported_ok dev \<Longrightarrow> \<exists>dev'. lookup_edid_modes dev edid = Some (dlo_ok, dev')"
  using lookup_edid_modes_result [of dev edid] by blast

text \<open>
  The two checks of \<open>dlo_mode_parse_edid\<close>. A block of 128 bytes is refused with
  \<open>dlo_err_edid_fail\<close>, the device left as it was, when its first eight bytes
  differ from the header or when its bytes do not sum to zero modulo 256. A block
  that passes both checks, and whose monitor strings all end within the readable
  bytes, is parsed with \<open>dlo_ok\<close> on a device whose supported array is well formed.
\<close>

lemma bad_edid_checksum_take:
  "bad_edid_checksum ptr sz \<longleftrightarrow> sum_list (map unat (take sz ptr)) mod 256 \<noteq> 0"
proof -
  have "bad_edid_checksum ptr sz \<longleftrightarrow> (of_nat (sum_list (map unat (take sz ptr))) :: 8 word) \<noteq> 0"
    by (auto simp: bad_edid_checksum_def checksum_fold)
  also have "\<dots> \<longleftrightarrow> \<not> 2 ^ LENGTH(8) dvd sum_list (map unat (take sz ptr))"
    by (simp only: word_of_nat_eq_0_iff)
  also have "\<dots> \<longleftrightarrow> sum_list (map unat (take sz ptr)) mod 256 \<noteq> 0"
    by (simp add: dvd_eq_mod_eq_0)
  finally show ?thesis .
qed

lemma dlo_mode_parse_edid_rejects:
  assumes "128 \<le> length ptr"
    and "take 8 ptr \<noteq> header \<or> sum_list (map unat (take 128 ptr)) mod 256 \<noteq> 0"
  shows "dlo_mode_parse_edid dev ptr 128 = Some (dlo_err_edid_fail, dev)"
proof -
  have hl: "length header = 8" by (simp add: header_def)
  from assms show ?thesis
    by (auto simp: dlo_mode_parse_edid_def EDID_STRUCT_SZ_def hl bad_edid_checksum_take)
qed

lemma dlo_mode_parse_edid_accepts:
  assumes "128 \<le> length ptr" and "take 8 ptr = header"
    and "sum_list (map unat (take 128 ptr)) mod 256 = 0"
    and "descs_parsed ptr" and "supported_ok dev"
  shows "\<exists>dev'. dlo_mode_parse_edid dev ptr 128 = Some (dlo_ok, dev')"
proof -
  have hl: "length header = 8" by (simp add: header_def)
  from assms
  have "dlo_mode_parse_edid dev ptr 128 = lookup_edid_modes dev (parse_edid_record ptr)"
    by (simp add: dlo_mode_parse_edid_def EDID_STRUCT_SZ_def hl bad_edid_checksum_take)
  with lookup_edid_modes_ok [OF assms(5)] show ?thesis by simp
qed

lemma dlo_mode_parse_edid_undefined:
  assumes "128 \<le> length ptr" and "take 8 ptr = header"
    and "sum_list (map unat (take 128 ptr)) mod 256 = 0"
    and "\<not> descs_parsed ptr"
  shows "dlo_mode_parse_edid dev ptr 128 = None"
proof -
  have hl: "length header = 8" by (simp add: header_def)
  from assms show ?thesis
    by (simp add: dlo_mode_parse_edid_def EDID_STRUCT_SZ_def hl bad_edid_checksum_take)
qed

lemma supported_ok_example_device: "supported_ok example_device"
  by (simp add: supported_ok_def supported_example_device DLO_MODE_DATA_NUM_def)

lemma edid_est_640_facts:
  "length edid_est_640 = 128" "take 8 edid_est_640 = header"
  "sum_list (map unat edid_est_640) mod 256 = 0"
  by (simp_all add: edid_est_640_def header_def)

lemma edid_detail_1280_facts:
  "length edid_detail_1280 = 128" "take 8 edid_detail_1280 = header"
  "sum_list (map unat edid_detail_1280) mod 256 = 0"
  by (simp_all add: edid_detail_1280_def header_def)

lemma descs_parsed_examples:
  "descs_parsed edid_est_640" "descs_parsed edid_detail_1280"
  by (simp_all add: descs_parsed_def parse_edid_detail_desc_def RD_B_def edid_est_640_def
      edid_detail_1280_def upt_rec)

lemma dlo_mode_parse_edid_examples:
  "dlo_mode_parse_edid example_device edid_zeros 128 = Some (dlo_err_edid_fail, example_device)"
  "dlo_mode_parse_edid example_device edid_bad_checksum 128
     = Some (dlo_err_edid_fail, example_device)"
  "\<exists>dev'. dlo_mode_parse_edid example_device edid_est_640 128 = Some (dlo_ok, dev')"
proof -
  have z1: "length edid_zeros = 128" by (simp add: edid_zeros_def)
  have z2: "take 8 edid_zeros \<noteq> header"
  proof
    assume "take 8 edid_zeros = header"
    then have "take 8 edid_zeros ! 1 = header ! 1" by simp
    then show False by (simp add: edid_zeros_def header_def)
  qed
  have b: "length edid_bad_checksum = 128"
    "sum_list (map unat edid_bad_checksum) mod 256 \<noteq> 0"
    by (simp_all add: edid_bad_checksum_def header_def sum_list_replicate)
  show "dlo_mode_parse_edid example_device edid_zeros 128
          = Some (dlo_err_edid_fail, example_device)"
    using z1 z2 by (intro dlo_mode_parse_edid_rejects) simp_all
  show "dlo_mode_parse_edid example_device edid_bad_checksum 128
          = Some (dlo_err_edid_fail, example_device)"
    using b by (intro dlo_mode_parse_edid_rejects) simp_all
  show "\<exists>dev'. dlo_mode_parse_edid example_device edid_est_640 128 = Some (dlo_ok, dev')"
    using edid_est_640_facts descs_parsed_examples(1) supported_ok_example_device
    by (intro dlo_mode_parse_edid_accepts) simp_all
qed

lemma edid_monitor_name_facts:
  "length edid_monitor_name = 128" "take 8 edid_monitor_name = header"
  "sum_list (map unat edid_monitor_name) mod 256 = 0"
  by (simp_all add: edid_monitor_name_def header_def)

lemma edid_monitor_name_descs:
  "parse_edid_detail_desc edid_monitor_name 0x36 = Some Monitor_desc"
  "parse_edid_detail_desc edid_monitor_name 0x48 = Some Monitor_desc"
  "parse_edid_detail_desc edid_monitor_name 0x5A = Some Monitor_desc"
  "parse_edid_detail_desc edid_monitor_name 0x6C = None"
  "parse_edid_detail_desc (edid_monitor_name @ [0]) 0x36 = Some Monitor_desc"
  "parse_edid_detail_desc (edid_monitor_name @ [0]) 0x48 = Some Monitor_desc"
  "parse_edid_detail_desc (edid_monitor_name @ [0]) 0x5A = Some Monitor_desc"
  "parse_edid_detail_desc (edid_monitor_name @ [0]) 0x6C = Some Monitor_desc"
  by (simp_all add: parse_edid_detail_desc_def monitor_string_def RD_B_def edid_monitor_name_def)

text \<open>
  C1, what the code does. The block \<open>edid_monitor_name\<close> has 128 bytes, the
  header and a sum of zero modulo 256, so the two checks pass. Its last descriptor
  is a monitor name (type \<open>0xFC\<close> at \<open>0x6F\<close>) padded as the EDID format has it, and
  no zero byte follows \<open>0x71\<close> in the block: the string read of
  \<open>parse_edid_detail_desc\<close> runs past the 128th byte, and the parse has no defined
  result where the specification has it succeed. With one more readable byte behind
  the block, a zero, the same 128 bytes are parsed with \<open>dlo_ok\<close>.
\<close>

theorem monitor_string_read_past_block:
  "length edid_monitor_name = 128 \<and> take 8 edid_monitor_name = header \<and>
   sum_list (map unat edid_monitor_name) mod 256 = 0 \<and>
   RD_B edid_monitor_name 0x6F = 0xFC \<and>
   monitor_string edid_monitor_name 0x71 = None \<and>
   dlo_mode_parse_edid example_device edid_monitor_name 128 = None \<and>
   (\<exists>dev'. dlo_mode_parse_edid example_device (edid_monitor_name @ [0]) 128
             = Some (dlo_ok, dev'))"
proof -
  have tag: "RD_B edid_monitor_name 0x6F = 0xFC"
    by (simp add: RD_B_def edid_monitor_name_def)
  have str: "monitor_string edid_monitor_name 0x71 = None"
    by (simp add: monitor_string_def edid_monitor_name_def)
  have "\<not> descs_parsed edid_monitor_name"
    by (simp add: descs_parsed_def upt_rec edid_monitor_name_descs)
  with edid_monitor_name_facts
  have undef: "dlo_mode_parse_edid example_device edid_monitor_name 128 = None"
    by (intro dlo_mode_parse_edid_undefined) simp_all
  have "descs_parsed (edid_monitor_name @ [0])"
    by (simp add: descs_parsed_def upt_rec edid_monitor_name_descs)
  with edid_monitor_name_facts supported_ok_example_device
  have "\<exists>dev'. dlo_mode_parse_edid example_device (edid_monitor_name @ [0]) 128
                 = Some (dlo_ok, dev')"
    by (intro dlo_mode_parse_edid_accepts) simp_all
  with edid_monitor_name_facts tag str undef show ?thesis by simp
qed

section \<open>The build on examples, and its invariants\<close>

lemma est_supported_length: "length est_supported = DLO_MODE_DATA_NUM"
  by (simp add: est_supported_def DLO_MODE_DATA_NUM_def)

lemma desc_loop_example:
  "desc_loop (example_device\<lparr> native := zero_mode, supported := est_supported \<rparr>) 11
     [Detail detail_1280, Monitor_desc, Monitor_desc, Monitor_desc] =
     Some (14, example_device\<lparr> native := mode_of_data (mode_entry 1280 1024 85 24),
                  supported := est_supported[11 := 15, 12 := 14, 13 := 13] \<rparr>)"
  by (simp add: hz_loop_example)


lemma fill_loop_example_est:
  "fill_loop est_supported 11 =
     built_supported [26, 27, 32, 34, 30, 14, 19, 20, 21, 24, 25]"
  by (subst fill_loop_eq)
     (simp_all add: est_supported_def DLO_MODE_DATA_NUM_def built_supported_def eval_nat_numeral)


lemma lookup_example_est:
  "lookup_edid_modes example_device (parse_edid_record edid_est_640) =
     Some (dlo_ok,
           example_device\<lparr> native := zero_mode,
             supported := built_supported [26, 27, 32, 34, 30, 14, 19, 20, 21, 24, 25] \<rparr>)"
  by (simp add: lookup_edid_modes_def Let_def est_loop_example parse_edid_est_640
      fill_loop_example_est)

lemma parse_example:
  "dlo_mode_parse_edid dev edid_est_640 128 = lookup_edid_modes dev (parse_edid_record edid_est_640)"
  "dlo_mode_parse_edid dev edid_detail_1280 128
     = lookup_edid_modes dev (parse_edid_record edid_detail_1280)"
proof -
  have hl: "length header = 8" by (simp add: header_def)
  from bad_edid_checksum_iff [of edid_est_640 128]
  show "dlo_mode_parse_edid dev edid_est_640 128
          = lookup_edid_modes dev (parse_edid_record edid_est_640)"
    by (simp add: dlo_mode_parse_edid_def EDID_STRUCT_SZ_def edid_est_640_facts hl
        descs_parsed_examples)
  from bad_edid_checksum_iff [of edid_detail_1280 128]
  show "dlo_mode_parse_edid dev edid_detail_1280 128
          = lookup_edid_modes dev (parse_edid_record edid_detail_1280)"
    by (simp add: dlo_mode_parse_edid_def EDID_STRUCT_SZ_def edid_detail_1280_facts hl
        descs_parsed_examples)
qed

text \<open>
  C3, what the code does. The block \<open>edid_est_640\<close> has
  only bit 5 of the established timings set, the bit of 640 by 480 at 60 Hz. Parsed
  on the device with the default supported list, it leaves eleven established-timing
  modes in \<open>dev.supported\<close>, one for every table entry that the lookup finds, set
  bit or not: entry 0 is catalogue index 26 (800 by 600 at 60 Hz) and entry 1 is
  index 27, where the specification has index 34 (640 by 480 at 60 Hz) and the
  sentinel.
\<close>

theorem established_timings_ignore_bits:
  "est_timings_of (parse_edid_record edid_est_640)
     = \<lparr> timings_0 = 0x20, timings_1 = 0, resvd = 0 \<rparr> \<and>
   dlo_mode_parse_edid example_device edid_est_640 128 =
     Some (dlo_ok,
           example_device\<lparr> native := zero_mode,
             supported := built_supported [26, 27, 32, 34, 30, 14, 19, 20, 21, 24, 25] \<rparr>) \<and>
   built_supported [26, 27, 32, 34, 30, 14, 19, 20, 21, 24, 25] ! 0 = 26 \<and>
   built_supported [26, 27, 32, 34, 30, 14, 19, 20, 21, 24, 25] ! 1 = 27 \<and>
   dlo_mode_data ! 26 = mode_entry 800 600 60 24 \<and>
   dlo_mode_data ! 27 = mode_entry 800 600 56 24 \<and>
   dlo_mode_data ! 34 = mode_entry 640 480 60 24"
proof -
  have "est_timings_of (parse_edid_record edid_est_640)
          = \<lparr> timings_0 = 0x20, timings_1 = 0, resvd = 0 \<rparr>"
    by (simp add: parse_edid_record_def RD_B_def edid_est_640_def)
  moreover have "built_supported [26, 27, 32, 34, 30, 14, 19, 20, 21, 24, 25] ! 0 = 26"
    "built_supported [26, 27, 32, 34, 30, 14, 19, 20, 21, 24, 25] ! 1 = 27"
    by (simp_all add: built_supported_def)
  ultimately show ?thesis
    by (simp add: parse_example lookup_example_est cat_nth)
qed

text \<open>
  C4, what the code does. The block
  \<open>edid_colours_probe\<close> has a valid header and checksum and, in its colour
  characteristics at \<open>0x19\<close> to \<open>0x22\<close>, \<open>blu_wht_low = 0x30\<close>, a red-x high
  byte of \<open>0x80\<close>, a white-x high byte of 1 and a white-y high byte of 2. The parser
  passes \<open>ptr + 0x19\<close> to \<open>parse_edid_colours\<close>, which adds \<open>0x19\<close> again:
  it reads \<open>0x32\<close> to \<open>0x3B\<close> and every channel comes out 0. Called with the
  base of the block, \<open>parse_edid_colours\<close> still expands blue-y with the mask
  \<open>0x40\<close> (0 instead of 3) and white-x from the white-y high byte (8 instead of
  4). The last conjunct is the expansion as the specification states it.
\<close>

theorem colours_read_from_wrong_bytes:
  "colours (parse_edid_record edid_colours_probe) =
     \<lparr> red_grn_low = 0, blu_wht_low = 0, red_x = 0, red_y = 0, grn_x = 0, grn_y = 0,
       blu_x = 0, blu_y = 0, wht_x = 0, wht_y = 0 \<rparr> \<and>
   parse_edid_colours edid_colours_probe 0 =
     \<lparr> red_grn_low = 0, blu_wht_low = 0x30, red_x = 0x200, red_y = 0, grn_x = 0, grn_y = 0,
       blu_x = 0, blu_y = 0, wht_x = 8, wht_y = 8 \<rparr> \<and>
   spec_edid_colours edid_colours_probe =
     \<lparr> red_grn_low = 0, blu_wht_low = 0x30, red_x = 0x200, red_y = 0, grn_x = 0, grn_y = 0,
       blu_x = 0, blu_y = 3, wht_x = 4, wht_y = 8 \<rparr>"
  by (simp add: parse_edid_record_def parse_edid_colours_def spec_edid_colours_def RD_B_def
      edid_colours_probe_def Let_def)





lemma unat_of_nat_index:
  "i < DLO_MODE_DATA_NUM \<Longrightarrow> unat (of_nat i :: 32 word) = i"
  by (simp add: unat_of_nat DLO_MODE_DATA_NUM_def)

lemma default_modes_entries:
  assumes "length (supported dev) = DLO_MODE_DATA_NUM"
  shows "list_all (\<lambda>n. unat n < DLO_MODE_DATA_NUM) (supported (use_default_modes dev))"
    and "DLO_INVALID_MODE \<notin> set (supported (use_default_modes dev))"
    and "before_sentinel (use_default_modes dev) = supported (use_default_modes dev)"
proof -
  note s = supported_use_default_modes [OF assms]
  show a: "list_all (\<lambda>n. unat n < DLO_MODE_DATA_NUM) (supported (use_default_modes dev))"
    unfolding s list_all_iff by (auto simp: unat_of_nat_index)
  show b: "DLO_INVALID_MODE \<notin> set (supported (use_default_modes dev))"
    using a index_not_invalid unfolding list_all_iff by blast
  have "takeWhile (\<lambda>n. n \<noteq> DLO_INVALID_MODE) (supported (use_default_modes dev))
          = supported (use_default_modes dev)"
    using b by (intro takeWhile_eq_all_conv [THEN iffD2]) auto
  moreover have "length (supported (use_default_modes dev)) = DLO_MODE_DATA_NUM"
    unfolding s by simp
  ultimately show "before_sentinel (use_default_modes dev) = supported (use_default_modes dev)"
    by (simp add: before_sentinel_def)
qed

text \<open>
  C6, as the specification states it, fails. After \<open>use_default_modes\<close> the
  array holds no sentinel at all: all
  \<open>DLO_MODE_DATA_NUM\<close> entries come before any sentinel.
\<close>

theorem default_modes_no_sentinel_counterexample:
  "DLO_INVALID_MODE \<notin> set (supported (use_default_modes blank_device)) \<and>
   length (supported (use_default_modes blank_device)) = DLO_MODE_DATA_NUM \<and>
   length (before_sentinel (use_default_modes blank_device)) = DLO_MODE_DATA_NUM"
proof -
  have l: "length (supported blank_device) = DLO_MODE_DATA_NUM"
    by (simp add: blank_device_def)
  from default_modes_entries [OF l] supported_use_default_modes [OF l]
  show ?thesis by simp
qed

text \<open>
  C6, as amended. After \<open>use_default_modes\<close> the supported array holds the
  catalogue indices 0 to 34 in order: every entry is a catalogue index and there is no
  sentinel (the lookup stops after \<open>DLO_MODE_DATA_NUM\<close> entries instead). After a
  build of the supported list from EDID, on a device whose array was well formed, the
  array is well formed again, has a sentinel within its length (the entries before the
  first sentinel are fewer than \<open>DLO_MODE_DATA_NUM\<close>), and every entry before the
  first sentinel is a catalogue index.
\<close>

theorem supported_list_invariant:
  "(length (supported dev) = DLO_MODE_DATA_NUM \<longrightarrow>
      supported (use_default_modes dev) = map of_nat [0..<DLO_MODE_DATA_NUM] \<and>
      DLO_INVALID_MODE \<notin> set (supported (use_default_modes dev)) \<and>
      list_all (\<lambda>n. unat n < DLO_MODE_DATA_NUM) (supported (use_default_modes dev)) \<and>
      supported_ok (use_default_modes dev)) \<and>
   (supported_ok dev \<longrightarrow>
      (\<exists>dev'. lookup_edid_modes dev edid = Some (dlo_ok, dev') \<and>
             supported_ok dev' \<and>
             length (before_sentinel dev') < DLO_MODE_DATA_NUM \<and>
             list_all (\<lambda>n. unat n < DLO_MODE_DATA_NUM) (before_sentinel dev')))"
proof (intro conjI impI)
  assume l: "length (supported dev) = DLO_MODE_DATA_NUM"
  show "supported (use_default_modes dev) = map of_nat [0..<DLO_MODE_DATA_NUM]"
    by (rule supported_use_default_modes [OF l])
  show "DLO_INVALID_MODE \<notin> set (supported (use_default_modes dev))"
    by (rule default_modes_entries(2) [OF l])
  show a: "list_all (\<lambda>n. unat n < DLO_MODE_DATA_NUM) (supported (use_default_modes dev))"
    by (rule default_modes_entries(1) [OF l])
  have "length (supported (use_default_modes dev)) = DLO_MODE_DATA_NUM"
    by (simp add: supported_use_default_modes [OF l])
  with a show "supported_ok (use_default_modes dev)"
    by (auto simp: supported_ok_def list_all_iff)
next
  assume ok: "supported_ok dev"
  from lookup_edid_modes_result [OF ok, of edid] obtain dev'
    where run: "lookup_edid_modes dev edid = Some (dlo_ok, dev')"
      and ok': "supported_ok dev'"
      and ub: "length (before_sentinel dev') \<le> 31"
      and valid: "list_all (\<lambda>n. unat n < DLO_MODE_DATA_NUM) (before_sentinel dev')"
    by blast
  from ub have "length (before_sentinel dev') < DLO_MODE_DATA_NUM"
    by (simp add: DLO_MODE_DATA_NUM_def)
  with run ok' valid
  show "\<exists>dev'. lookup_edid_modes dev edid = Some (dlo_ok, dev') \<and>
             supported_ok dev' \<and>
             length (before_sentinel dev') < DLO_MODE_DATA_NUM \<and>
             list_all (\<lambda>n. unat n < DLO_MODE_DATA_NUM) (before_sentinel dev')"
    by blast
qed

theorem supported_list_invariant_witness:
  "length (supported blank_device) = DLO_MODE_DATA_NUM \<and>
   supported (use_default_modes blank_device) = map of_nat [0..<DLO_MODE_DATA_NUM] \<and>
   list_all (\<lambda>n. unat n < DLO_MODE_DATA_NUM) (supported (use_default_modes blank_device)) \<and>
   supported_ok example_device \<and>
   (\<exists>dev'. lookup_edid_modes example_device (parse_edid_record edid_est_640) = Some (dlo_ok, dev') \<and>
          supported_ok dev' \<and>
          length (before_sentinel dev') < DLO_MODE_DATA_NUM \<and>
          list_all (\<lambda>n. unat n < DLO_MODE_DATA_NUM) (before_sentinel dev'))"
proof -
  have l: "length (supported blank_device) = DLO_MODE_DATA_NUM"
    by (simp add: blank_device_def)
  from supported_list_invariant [of blank_device] l
  have a: "supported (use_default_modes blank_device) = map of_nat [0..<DLO_MODE_DATA_NUM]"
    and b: "list_all (\<lambda>n. unat n < DLO_MODE_DATA_NUM) (supported (use_default_modes blank_device))"
    by blast+
  from supported_list_invariant [of example_device "parse_edid_record edid_est_640"]
    supported_ok_example_device
  have c: "\<exists>dev'. lookup_edid_modes example_device (parse_edid_record edid_est_640)
                    = Some (dlo_ok, dev') \<and>
          supported_ok dev' \<and>
          length (before_sentinel dev') < DLO_MODE_DATA_NUM \<and>
          list_all (\<lambda>n. unat n < DLO_MODE_DATA_NUM) (before_sentinel dev')"
    by blast
  from l a b c supported_ok_example_device show ?thesis by blast
qed

end
